theory Spec2Isabelle
  imports Main "HOL-Library.Word"
begin

section \<open>Icons, iconsets and the iconset factory of iconset.cpp\<close>

text \<open>
  The development embeds the classes of \<^verbatim>\<open>src/tools/iconset/iconset.cpp\<close>:
  \<^verbatim>\<open>Icon\<close> with its shared \<^verbatim>\<open>Icon::Private\<close>, \<^verbatim>\<open>Iconset\<close> with its shared
  \<^verbatim>\<open>Iconset::Private\<close>, and the registry \<^verbatim>\<open>IconsetFactoryPrivate\<close>.

  C++ objects live in an explicit store: an object is an address, a pointer field holds an
  address, \<^verbatim>\<open>new\<close> takes the next unused address and \<^verbatim>\<open>delete\<close> removes the
  address from the store. Going through a pointer whose target has been deleted is
  undefined behaviour in C++; in the model it is the error value \<open>UseAfterFree\<close>.
  An \<^verbatim>\<open>int\<close> is a 32-bit word read as a signed number by \<open>sint\<close>; its overflow is
  undefined behaviour as well and is the error \<open>SignedOverflow\<close>.

  Signal emission and signal wiring (\<^verbatim>\<open>emit\<close>, \<^verbatim>\<open>connectInstance\<close>, \<^verbatim>\<open>connectUpdate\<close>,
  \<^verbatim>\<open>blockSignals\<close>), the sound signal of \<^verbatim>\<open>activated\<close>, thread affinity and the lazily
  built \<^verbatim>\<open>QIconSet\<close> cache are not part of the modelled state.
\<close>

subsection \<open>Errors\<close>

datatype error = UseAfterFree | SignedOverflow

definition bindE :: "error + 'x \<Rightarrow> ('x \<Rightarrow> error + 'y) \<Rightarrow> error + 'y" where
  "bindE m f = (case m of Inl e \<Rightarrow> Inl e | Inr x \<Rightarrow> f x)"

subsection \<open>What iconset.cpp takes from other files\<close>

type_synonym QByteArray = "char list"

text \<open>
  An \<^verbatim>\<open>Impix\<close> holds a \<^verbatim>\<open>QImage\<close> and the \<^verbatim>\<open>QPixmap\<close> converted from it, or nothing
  (\<^verbatim>\<open>isNull()\<close>). With \<open>'p\<close> the type of image data, it is a \<open>'p option\<close>.
\<close>

type_synonym 'p Impix = "'p option"

text \<open>
  The class \<^verbatim>\<open>Anim\<close> (anim.h), the image decoder of Qt and the default arguments
  declared in iconset.h are not defined in iconset.cpp. They are parameters of the model:
  \<open>'a\<close> is the type of the values of \<^verbatim>\<open>Anim\<close>, and a record of this type carries the
  member functions of \<^verbatim>\<open>Anim\<close> that iconset.cpp calls. A copy-constructed \<^verbatim>\<open>Anim\<close> is
  the same value of type \<open>'a\<close>.
\<close>

record ('a, 'p) ext =
  numFrames :: "'a \<Rightarrow> int"
  frame :: "'a \<Rightarrow> int \<Rightarrow> 'p Impix"
  pause :: "'a \<Rightarrow> 'a"
  unpause :: "'a \<Rightarrow> 'a"
  restart :: "'a \<Rightarrow> 'a"
  stripFirstFrame :: "'a \<Rightarrow> 'a"
  animFromData :: "QByteArray \<Rightarrow> 'a"
  imageFromData :: "QByteArray \<Rightarrow> 'p option"
  setImpix_doDetach :: bool
  setAnim_doDetach :: bool

subsection \<open>Icon::Private and the store of icons\<close>

text \<open>
  \<^verbatim>\<open>Icon::Private\<close> derives from \<^verbatim>\<open>Q3Shared\<close>, whose \<^verbatim>\<open>count\<close> starts at 1, is
  incremented by \<^verbatim>\<open>ref()\<close> and decremented by \<^verbatim>\<open>deref()\<close>, which returns true when
  the count has reached 0. The count is an \<^verbatim>\<open>unsigned int\<close> in Qt and a \<open>nat\<close> here:
  the model covers fewer than \<open>2 ^ 32\<close> simultaneous references.
  The text table is a \<^verbatim>\<open>QHash\<close> filled with \<^verbatim>\<open>insertMulti\<close>; it is kept as the list
  of its entries.
\<close>

record ('a, 'p) IconPrivate =
  count :: nat
  name :: string
  regExp :: string
  icon_text :: "(string \<times> string) list"
  sound :: "string option"
  impix :: "'p Impix"
  anim :: "'a option"
  activatedCount :: "32 word"

text \<open>
  \<open>icons\<close> maps the address of every live \<^verbatim>\<open>Icon\<close> object to its field \<^verbatim>\<open>d\<close>,
  \<open>privs\<close> maps the address of every live \<^verbatim>\<open>Icon::Private\<close> to its content.
  \<open>uninit\<close> gives the content found in memory that a constructor leaves uninitialised.
\<close>

record ('a, 'p) icon_heap =
  icons :: "nat \<rightharpoonup> nat"
  privs :: "nat \<rightharpoonup> ('a, 'p) IconPrivate"
  next_addr :: nat
  uninit :: "nat \<Rightarrow> 32 word"

definition INT_MAX :: int where
  "INT_MAX = 2147483647"

definition INT_MIN :: int where
  "INT_MIN = - 2147483648"

definition icon_d :: "('a, 'p) icon_heap \<Rightarrow> nat \<Rightarrow> error + nat" where
  "icon_d h i = (case icons h i of None \<Rightarrow> Inl UseAfterFree | Some d \<Rightarrow> Inr d)"

definition priv_at :: "('a, 'p) icon_heap \<Rightarrow> nat \<Rightarrow> error + ('a, 'p) IconPrivate" where
  "priv_at h d = (case privs h d of None \<Rightarrow> Inl UseAfterFree | Some P \<Rightarrow> Inr P)"

text \<open>\<open>icon_priv h i\<close> follows \<^verbatim>\<open>d\<close> of the icon \<open>i\<close>: the address and the content.\<close>

definition icon_priv :: "('a, 'p) icon_heap \<Rightarrow> nat \<Rightarrow> error + (nat \<times> ('a, 'p) IconPrivate)" where
  "icon_priv h i = bindE (icon_d h i) (\<lambda>d. bindE (priv_at h d) (\<lambda>P. Inr (d, P)))"

text \<open>\<^verbatim>\<open>Icon::Private::Private()\<close>\<close>

definition Private_new :: "('a, 'p) icon_heap \<Rightarrow> nat \<times> ('a, 'p) icon_heap" where
  "Private_new h =
     (let p = next_addr h in
      (p, h\<lparr>privs := (privs h)(p \<mapsto>
               \<lparr>count = 1, name = [], regExp = [], icon_text = [], sound = None,
                impix = None, anim = None, activatedCount = 0\<rparr>),
             next_addr := Suc p\<rparr>))"

text \<open>
  \<^verbatim>\<open>Icon::Private::Private(const Private &from)\<close> copies name, regExp, text, sound, impix
  and the animation. It does not initialise \<^verbatim>\<open>activatedCount\<close>.
\<close>

definition Private_copy ::
  "('a, 'p) IconPrivate \<Rightarrow> ('a, 'p) icon_heap \<Rightarrow> nat \<times> ('a, 'p) icon_heap" where
  "Private_copy from h =
     (let p = next_addr h in
      (p, h\<lparr>privs := (privs h)(p \<mapsto> from\<lparr>count := 1, activatedCount := uninit h p\<rparr>),
             next_addr := Suc p\<rparr>))"

text \<open>\<^verbatim>\<open>if ( d->deref() ) delete d;\<close>\<close>

definition release :: "nat \<Rightarrow> ('a, 'p) icon_heap \<Rightarrow> error + ('a, 'p) icon_heap" where
  "release d h =
     bindE (priv_at h d) (\<lambda>P.
       if count P - 1 = 0 then Inr (h\<lparr>privs := (privs h)(d := None)\<rparr>)
       else Inr (h\<lparr>privs := (privs h)(d \<mapsto> P\<lparr>count := count P - 1\<rparr>)\<rparr>))"

text \<open>\<^verbatim>\<open>Icon::Icon()\<close>; the result is the address of the new icon.\<close>

definition Icon_new :: "('a, 'p) icon_heap \<Rightarrow> nat \<times> ('a, 'p) icon_heap" where
  "Icon_new h =
     (let (d, h1) = Private_new h; i = next_addr h1 in
      (i, h1\<lparr>icons := (icons h1)(i \<mapsto> d), next_addr := Suc i\<rparr>))"

text \<open>\<^verbatim>\<open>Icon::~Icon()\<close>\<close>

definition Icon_dtor :: "nat \<Rightarrow> ('a, 'p) icon_heap \<Rightarrow> error + ('a, 'p) icon_heap" where
  "Icon_dtor i h =
     bindE (icon_d h i) (\<lambda>d.
     bindE (release d h) (\<lambda>h1.
       Inr (h1\<lparr>icons := (icons h1)(i := None)\<rparr>)))"

text \<open>\<^verbatim>\<open>Icon::Icon(const Icon &from)\<close>\<close>

definition Icon_copy_ctor ::
  "nat \<Rightarrow> ('a, 'p) icon_heap \<Rightarrow> error + (nat \<times> ('a, 'p) icon_heap)" where
  "Icon_copy_ctor from h =
     bindE (icon_priv h from) (\<lambda>(d, P).
       let i = next_addr h in
       Inr (i, h\<lparr>icons := (icons h)(i \<mapsto> d),
                 privs := (privs h)(d \<mapsto> P\<lparr>count := count P + 1\<rparr>),
                 next_addr := Suc i\<rparr>))"

text \<open>\<^verbatim>\<open>Icon::operator=(const Icon &from)\<close>\<close>

definition Icon_assign :: "nat \<Rightarrow> nat \<Rightarrow> ('a, 'p) icon_heap \<Rightarrow> error + ('a, 'p) icon_heap" where
  "Icon_assign this from h =
     bindE (icon_d h this) (\<lambda>d.
     bindE (release d h) (\<lambda>h1.
     bindE (icon_priv h1 from) (\<lambda>(d', P').
       Inr (h1\<lparr>icons := (icons h1)(this \<mapsto> d'),
               privs := (privs h1)(d' \<mapsto> P'\<lparr>count := count P' + 1\<rparr>)\<rparr>))))"

text \<open>
  \<^verbatim>\<open>Icon::copy()\<close>: a new icon, whose own new Private is deleted at once and replaced by
  a copy of the Private of \<^verbatim>\<open>this\<close>.
\<close>

definition Icon_copy ::
  "nat \<Rightarrow> ('a, 'p) icon_heap \<Rightarrow> error + (nat \<times> ('a, 'p) icon_heap)" where
  "Icon_copy this h =
     (let (i, h1) = Icon_new h in
      bindE (icon_d h1 i) (\<lambda>d0.
      let h2 = h1\<lparr>privs := (privs h1)(d0 := None)\<rparr> in
      bindE (icon_priv h2 this) (\<lambda>(d, P).
      let (q, h3) = Private_copy P h2 in
      Inr (i, h3\<lparr>icons := (icons h3)(i \<mapsto> q)\<rparr>))))"

text \<open>\<^verbatim>\<open>Icon::detach()\<close>\<close>

definition Icon_detach :: "nat \<Rightarrow> ('a, 'p) icon_heap \<Rightarrow> error + ('a, 'p) icon_heap" where
  "Icon_detach this h =
     bindE (icon_priv h this) (\<lambda>(d, P).
       if count P \<noteq> 1 then
         bindE (Icon_copy this h) (\<lambda>(i, h1).
         bindE (Icon_assign this i h1) (\<lambda>h2.
           Icon_dtor i h2))
       else Inr h)"

text \<open>Writing a changed Private back through \<^verbatim>\<open>d\<close>.\<close>

definition modify_priv ::
  "nat \<Rightarrow> (('a, 'p) IconPrivate \<Rightarrow> ('a, 'p) IconPrivate) \<Rightarrow> ('a, 'p) icon_heap
     \<Rightarrow> error + ('a, 'p) icon_heap" where
  "modify_priv this f h =
     bindE (icon_priv h this) (\<lambda>(d, P). Inr (h\<lparr>privs := (privs h)(d \<mapsto> f P)\<rparr>))"



definition Icon_anim :: "nat \<Rightarrow> ('a, 'p) icon_heap \<Rightarrow> error + 'a option" where
  "Icon_anim this h = bindE (icon_priv h this) (\<lambda>(d, P). Inr (anim P))"

definition Icon_name :: "nat \<Rightarrow> ('a, 'p) icon_heap \<Rightarrow> error + string" where
  "Icon_name this h = bindE (icon_priv h this) (\<lambda>(d, P). Inr (name P))"

text \<open>\<^verbatim>\<open>Icon::setImpix(const Impix &impix, bool doDetach)\<close>\<close>

definition Icon_setImpix ::
  "'p Impix \<Rightarrow> bool \<Rightarrow> nat \<Rightarrow> ('a, 'p) icon_heap \<Rightarrow> error + ('a, 'p) icon_heap" where
  "Icon_setImpix x doDetach this h =
     bindE (if doDetach then Icon_detach this h else Inr h) (\<lambda>h1.
       modify_priv this (\<lambda>P. P\<lparr>impix := x\<rparr>) h1)"

text \<open>\<^verbatim>\<open>Icon::activated(bool playSound)\<close>\<close>

definition Icon_activated ::
  "('a, 'p) ext \<Rightarrow> bool \<Rightarrow> nat \<Rightarrow> ('a, 'p) icon_heap \<Rightarrow> error + ('a, 'p) icon_heap" where
  "Icon_activated E playSound this h =
     bindE (icon_priv h this) (\<lambda>(d, P).
       if sint (activatedCount P) = INT_MAX then Inl SignedOverflow
       else Inr (h\<lparr>privs := (privs h)(d \<mapsto>
               P\<lparr>activatedCount := activatedCount P + 1,
                 anim := map_option (unpause E) (anim P)\<rparr>)\<rparr>))"

text \<open>\<^verbatim>\<open>Icon::stop()\<close>\<close>

definition Icon_stop ::
  "('a, 'p) ext \<Rightarrow> nat \<Rightarrow> ('a, 'p) icon_heap \<Rightarrow> error + ('a, 'p) icon_heap" where
  "Icon_stop E this h =
     bindE (icon_priv h this) (\<lambda>(d, P).
       if sint (activatedCount P) = INT_MIN then Inl SignedOverflow
       else
         let P1 = P\<lparr>activatedCount := activatedCount P - 1\<rparr> in
         Inr (h\<lparr>privs := (privs h)(d \<mapsto>
               (if sint (activatedCount P1) \<le> 0
                then P1\<lparr>activatedCount := 0,
                        anim := map_option (\<lambda>a. restart E (pause E a)) (anim P1)\<rparr>
                else P1))\<rparr>))"

text \<open>\<^verbatim>\<open>Icon::setAnim(const Anim &anim, bool doDetach)\<close>\<close>

definition Icon_setAnim ::
  "('a, 'p) ext \<Rightarrow> 'a \<Rightarrow> bool \<Rightarrow> nat \<Rightarrow> ('a, 'p) icon_heap \<Rightarrow> error + ('a, 'p) icon_heap" where
  "Icon_setAnim E a doDetach this h =
     bindE (if doDetach then Icon_detach this h else Inr h) (\<lambda>h1.
     bindE (modify_priv this (\<lambda>P. P\<lparr>anim := Some a\<rparr>) h1) (\<lambda>h2.
     bindE (if numFrames E a > 0
            then Icon_setImpix (frame E a 0) (setImpix_doDetach E) this h2
            else Inr h2) (\<lambda>h3.
     bindE (icon_priv h3 this) (\<lambda>(d3, P3).
     bindE (case anim P3 of
              None \<Rightarrow> Inr h3
            | Some a3 \<Rightarrow>
                if numFrames E a3 < 2
                then Inr (h3\<lparr>privs := (privs h3)(d3 \<mapsto> P3\<lparr>anim := None\<rparr>)\<rparr>)
                else Inr h3) (\<lambda>h4.
     bindE (icon_priv h4 this) (\<lambda>(d4, P4).
       if anim P4 \<noteq> None \<and> sint (activatedCount P4) > 0
       then bindE (modify_priv this (\<lambda>P. P\<lparr>activatedCount := 0\<rparr>) h4)
              (Icon_activated E False this)
       else Inr h4))))))"


text \<open>\<^verbatim>\<open>Icon::setName\<close>, \<^verbatim>\<open>Icon::setRegExp\<close>, \<^verbatim>\<open>Icon::setText\<close>, \<^verbatim>\<open>Icon::setSound\<close>\<close>

definition Icon_setName :: "string \<Rightarrow> nat \<Rightarrow> ('a, 'p) icon_heap \<Rightarrow> error + ('a, 'p) icon_heap" where
  "Icon_setName n this h =
     bindE (Icon_detach this h) (modify_priv this (\<lambda>P. P\<lparr>name := n\<rparr>))"






subsection \<open>Sequences of activated() and stop()\<close>

datatype call = Activated bool | Stop

fun do_call ::
  "('a, 'p) ext \<Rightarrow> nat \<Rightarrow> call \<Rightarrow> ('a, 'p) icon_heap \<Rightarrow> error + ('a, 'p) icon_heap" where
  "do_call E i (Activated b) h = Icon_activated E b i h"
| "do_call E i Stop h = Icon_stop E i h"

fun run_calls ::
  "('a, 'p) ext \<Rightarrow> nat \<Rightarrow> call list \<Rightarrow> ('a, 'p) icon_heap \<Rightarrow> error + ('a, 'p) icon_heap" where
  "run_calls E i [] h = Inr h"
| "run_calls E i (c # cs) h = bindE (do_call E i c h) (run_calls E i cs)"

text \<open>The activation counter of the icon \<open>i\<close>, when the icon and its Private are live.\<close>

definition counter :: "('a, 'p) icon_heap \<Rightarrow> nat \<Rightarrow> int option" where
  "counter h i =
     (case icon_priv h i of Inl e \<Rightarrow> None | Inr (d, P) \<Rightarrow> Some (sint (activatedCount P)))"

subsection \<open>IconsetFactoryPrivate: the registry of iconsets\<close>

text \<open>
  The registry is the static \<^verbatim>\<open>QList<Iconset *> *iconsets\<close>: a null pointer (\<open>None\<close>)
  until the first registration, then a list of pointers to \<^verbatim>\<open>Iconset\<close> objects. A
  pointer to an iconset is \<open>Some\<close> of its address, or \<open>None\<close> for the null pointer.
  \<open>emptyPixmap\<close> tells whether the static \<^verbatim>\<open>QPixmap *emptyPixmap\<close> is allocated.
\<close>

record factory =
  iconsets :: "nat option list option"
  emptyPixmap :: bool

definition factory_init :: factory where
  "factory_init = \<lparr>iconsets = None, emptyPixmap = False\<rparr>"

text \<open>\<^verbatim>\<open>IconsetFactoryPrivate::registerIconset(const Iconset *i)\<close>\<close>

definition registerIconset :: "nat option \<Rightarrow> factory \<Rightarrow> factory" where
  "registerIconset i f =
     (let l = (case iconsets f of None \<Rightarrow> [] | Some l \<Rightarrow> l) in
      if i \<notin> set l then f\<lparr>iconsets := Some (l @ [i])\<rparr>
      else f\<lparr>iconsets := Some l\<rparr>)"

text \<open>
  \<^verbatim>\<open>IconsetFactoryPrivate::unregisterIconset(const Iconset *i)\<close>. The call
  \<^verbatim>\<open>iconsets->remove(i)\<close> is the Qt 3 support member of \<^verbatim>\<open>QList\<close>, which removes every
  occurrence.
\<close>

definition unregisterIconset :: "nat option \<Rightarrow> factory \<Rightarrow> factory" where
  "unregisterIconset i f =
     (let f1 = (case iconsets f of
                  None \<Rightarrow> f
                | Some l \<Rightarrow> if i \<in> set l then f\<lparr>iconsets := Some (removeAll i l)\<rparr> else f)
      in case iconsets f1 of
           None \<Rightarrow> f1\<lparr>emptyPixmap := False\<rparr>
         | Some l \<Rightarrow> if length l = 0 then f1\<lparr>iconsets := None, emptyPixmap := False\<rparr> else f1)"

text \<open>\<^verbatim>\<open>Iconset::addToFactory()\<close> and \<^verbatim>\<open>Iconset::removeFromFactory()\<close> of the iconset at \<open>this\<close>\<close>

definition Iconset_addToFactory :: "nat \<Rightarrow> factory \<Rightarrow> factory" where
  "Iconset_addToFactory this f = registerIconset (Some this) f"

definition Iconset_removeFromFactory :: "nat \<Rightarrow> factory \<Rightarrow> factory" where
  "Iconset_removeFromFactory this f = unregisterIconset (Some this) f"

text \<open>The entries of the registry, in registration order.\<close>

definition entries :: "factory \<Rightarrow> nat option list" where
  "entries f = (case iconsets f of None \<Rightarrow> [] | Some l \<Rightarrow> l)"

datatype factory_call = Register "nat option" | Unregister "nat option"

fun factory_step :: "factory_call \<Rightarrow> factory \<Rightarrow> factory" where
  "factory_step (Register i) f = registerIconset i f"
| "factory_step (Unregister i) f = unregisterIconset i f"

text \<open>The registry after a sequence of calls, starting with the static initial values.\<close>

definition factory_after :: "factory_call list \<Rightarrow> factory" where
  "factory_after cs = foldl (\<lambda>f c. factory_step c f) factory_init cs"


subsection \<open>The document object model of the icon definition\<close>

text \<open>
  \<^verbatim>\<open>QDomNode\<close> and \<^verbatim>\<open>QDomElement\<close> belong to Qt. A node is an element with its tag
  name, attributes and child nodes, a text node, or any other node (a comment, a
  processing instruction). \<^verbatim>\<open>toElement()\<close> is null for the last two.
\<close>

datatype dom = Element string "(string \<times> string) list" "dom list" | Text string | Other

text \<open>\<^verbatim>\<open>QDomElement::text()\<close>: the text of all text nodes below the element, in order.\<close>

fun text_of :: "dom \<Rightarrow> string" where
  "text_of (Element tag attrs cs) = concat (map text_of cs)"
| "text_of (Text s) = s"
| "text_of Other = []"

fun tagName :: "dom \<Rightarrow> string" where
  "tagName (Element tag attrs cs) = tag"
| "tagName n = []"

fun childNodes :: "dom \<Rightarrow> dom list" where
  "childNodes (Element tag attrs cs) = cs"
| "childNodes n = []"

fun isElement :: "dom \<Rightarrow> bool" where
  "isElement (Element tag attrs cs) = True"
| "isElement n = False"

text \<open>\<^verbatim>\<open>QDomElement::attribute(name)\<close>: the empty string when the attribute is absent.\<close>

fun attribute :: "dom \<Rightarrow> string \<Rightarrow> string" where
  "attribute (Element tag attrs cs) a = (case map_of attrs a of None \<Rightarrow> [] | Some v \<Rightarrow> v)"
| "attribute n a = []"

subsection \<open>Iconset::Private\<close>

text \<open>
  \<open>dict\<close> is the \<^verbatim>\<open>QHash<QString, Icon *>\<close>; a stored pointer is \<open>Some\<close> of the address
  of an icon or \<open>None\<close> for the null pointer. \<open>icon_list\<close> is the \<^verbatim>\<open>QList<Icon *>\<close>.
\<close>

record IconsetPrivate =
  scount :: nat
  sname :: string
  version :: string
  description :: string
  creation :: string
  homeUrl :: string
  filename :: string
  authors :: "string list"
  dict :: "string \<rightharpoonup> nat option"
  icon_list :: "nat list"
  info :: "string \<rightharpoonup> string"

text \<open>
  The entry of the authors list for one \<^verbatim>\<open>author\<close> element. \<open>F fmt s s\<close> stands for
  \<^verbatim>\<open>QString(fmt).arg(s).arg(s)\<close> of Qt.
\<close>

definition author_entry :: "(string \<Rightarrow> string \<Rightarrow> string \<Rightarrow> string) \<Rightarrow> dom \<Rightarrow> string" where
  "author_entry F e =
     (let n = text_of e;
          tmp = ''<br>&nbsp;&nbsp;'';
          n = (if attribute e ''email'' \<noteq> []
               then n @ tmp @ F ''Email: <a href='mailto:%1'>%2</a>''
                                (attribute e ''email'') (attribute e ''email'')
               else n);
          n = (if attribute e ''jid'' \<noteq> []
               then n @ tmp @ F ''JID: <a href='jabber:%1'>%2</a>''
                                (attribute e ''jid'') (attribute e ''jid'')
               else n);
          n = (if attribute e ''www'' \<noteq> []
               then n @ tmp @ F ''WWW: <a href='%1'>%2</a>''
                                (attribute e ''www'') (attribute e ''www'')
               else n)
      in n)"

text \<open>The body of the loop of \<^verbatim>\<open>Iconset::Private::loadMeta\<close> for one child node.\<close>

definition loadMeta_node ::
  "(string \<Rightarrow> string \<Rightarrow> string \<Rightarrow> string) \<Rightarrow> IconsetPrivate \<Rightarrow> dom \<Rightarrow> IconsetPrivate" where
  "loadMeta_node F P e =
     (if \<not> isElement e then P
      else if tagName e = ''name'' then P\<lparr>sname := text_of e\<rparr>
      else if tagName e = ''version'' then P\<lparr>version := text_of e\<rparr>
      else if tagName e = ''description'' then P\<lparr>description := text_of e\<rparr>
      else if tagName e = ''author'' then P\<lparr>authors := authors P @ [author_entry F e]\<rparr>
      else if tagName e = ''creation'' then P\<lparr>creation := text_of e\<rparr>
      else if tagName e = ''home'' then P\<lparr>homeUrl := text_of e\<rparr>
      else P)"

text \<open>\<^verbatim>\<open>Iconset::Private::loadMeta(const QDomElement &i, const QString &dir)\<close>\<close>

definition loadMeta ::
  "(string \<Rightarrow> string \<Rightarrow> string \<Rightarrow> string) \<Rightarrow> dom \<Rightarrow> IconsetPrivate \<Rightarrow> IconsetPrivate" where
  "loadMeta F i P = foldl (loadMeta_node F) P (childNodes i)"

text \<open>
  What the description of the meta element says, for comparison: the text of the last
  child element with the given tag, or the value before when there is none.
\<close>

definition tagged :: "string \<Rightarrow> dom \<Rightarrow> dom list" where
  "tagged tag i = filter (\<lambda>e. isElement e \<and> tagName e = tag) (childNodes i)"

definition meta_value :: "string \<Rightarrow> dom \<Rightarrow> string \<Rightarrow> string" where
  "meta_value tag i before = (case rev (tagged tag i) of [] \<Rightarrow> before | e # es \<Rightarrow> text_of e)"


subsection \<open>The store of iconsets\<close>

text \<open>
  The whole state: the store of icons, the live \<^verbatim>\<open>Iconset\<close> objects with their field
  \<^verbatim>\<open>d\<close>, the live \<^verbatim>\<open>Iconset::Private\<close> objects, and the statics of the factory.
  Addresses of all objects come from \<open>next_addr\<close> of the store of icons.
\<close>

record ('a, 'p) state =
  ih :: "('a, 'p) icon_heap"
  isets :: "nat \<rightharpoonup> nat"
  sprivs :: "nat \<rightharpoonup> IconsetPrivate"
  fac :: factory

definition iconset_d :: "('a, 'p) state \<Rightarrow> nat \<Rightarrow> error + nat" where
  "iconset_d s i = (case isets s i of None \<Rightarrow> Inl UseAfterFree | Some d \<Rightarrow> Inr d)"

definition spriv_at :: "('a, 'p) state \<Rightarrow> nat \<Rightarrow> error + IconsetPrivate" where
  "spriv_at s d = (case sprivs s d of None \<Rightarrow> Inl UseAfterFree | Some P \<Rightarrow> Inr P)"

definition iconset_priv :: "('a, 'p) state \<Rightarrow> nat \<Rightarrow> error + (nat \<times> IconsetPrivate)" where
  "iconset_priv s i = bindE (iconset_d s i) (\<lambda>d. bindE (spriv_at s d) (\<lambda>P. Inr (d, P)))"

text \<open>Running an operation of the store of icons inside the whole state.\<close>

definition on_icons ::
  "(('a, 'p) icon_heap \<Rightarrow> error + ('a, 'p) icon_heap) \<Rightarrow> ('a, 'p) state \<Rightarrow> error + ('a, 'p) state" where
  "on_icons f s = bindE (f (ih s)) (\<lambda>h. Inr (s\<lparr>ih := h\<rparr>))"

definition new_addr :: "('a, 'p) state \<Rightarrow> nat \<times> ('a, 'p) state" where
  "new_addr s = (next_addr (ih s), s\<lparr>ih := (ih s)\<lparr>next_addr := Suc (next_addr (ih s))\<rparr>\<rparr>)"

text \<open>\<^verbatim>\<open>Iconset::Private::Private()\<close> with \<^verbatim>\<open>init()\<close>\<close>

definition SPrivate_init :: IconsetPrivate where
  "SPrivate_init =
     \<lparr>scount = 1, sname = ''Unnamed'', version = [], description = [], creation = [],
      homeUrl = [], filename = [], authors = [], dict = Map.empty, icon_list = [],
      info = Map.empty\<rparr>"

text \<open>\<^verbatim>\<open>Iconset::Private::setInformation(const Private &from)\<close>\<close>

definition SPrivate_setInformation :: "IconsetPrivate \<Rightarrow> IconsetPrivate \<Rightarrow> IconsetPrivate" where
  "SPrivate_setInformation from P =
     P\<lparr>sname := sname from, version := version from, description := description from,
       creation := creation from, homeUrl := homeUrl from, filename := filename from,
       authors := authors from, info := info from\<rparr>"

text \<open>\<^verbatim>\<open>delete i\<close> for a pointer to an icon; deleting the null pointer does nothing.\<close>

definition delete_icon :: "nat option \<Rightarrow> ('a, 'p) state \<Rightarrow> error + ('a, 'p) state" where
  "delete_icon i s = (case i of None \<Rightarrow> Inr s | Some a \<Rightarrow> on_icons (Icon_dtor a) s)"

text \<open>\<^verbatim>\<open>Iconset::Private::remove(QString name)\<close> on the Private at \<open>d\<close>\<close>

definition SPrivate_remove :: "nat \<Rightarrow> string \<Rightarrow> ('a, 'p) state \<Rightarrow> error + ('a, 'p) state" where
  "SPrivate_remove d n s =
     bindE (spriv_at s d) (\<lambda>P.
       case dict P n of
         None \<Rightarrow> Inr s
       | Some i \<Rightarrow>
           delete_icon i
             (s\<lparr>sprivs := (sprivs s)(d \<mapsto>
                  P\<lparr>dict := (dict P)(n := None),
                    icon_list := (case i of None \<Rightarrow> icon_list P
                                  | Some a \<Rightarrow> removeAll a (icon_list P))\<rparr>)\<rparr>))"

text \<open>\<^verbatim>\<open>Iconset::Private::append(QString n, Icon *icon)\<close> on the Private at \<open>d\<close>\<close>

definition SPrivate_append ::
  "nat \<Rightarrow> string \<Rightarrow> nat \<Rightarrow> ('a, 'p) state \<Rightarrow> error + ('a, 'p) state" where
  "SPrivate_append d n icon s =
     bindE (spriv_at s d) (\<lambda>P.
     bindE (if dict P n \<noteq> None then SPrivate_remove d n s else Inr s) (\<lambda>s1.
     bindE (spriv_at s1 d) (\<lambda>P1.
       Inr (s1\<lparr>sprivs := (sprivs s1)(d \<mapsto>
              P1\<lparr>dict := (dict P1)(n \<mapsto> Some icon), icon_list := icon_list P1 @ [icon]\<rparr>)\<rparr>))))"

text \<open>\<^verbatim>\<open>while ( !list.isEmpty() ) delete list.takeFirst();\<close>\<close>

fun delete_icons :: "nat list \<Rightarrow> ('a, 'p) icon_heap \<Rightarrow> error + ('a, 'p) icon_heap" where
  "delete_icons [] h = Inr h"
| "delete_icons (i # rest) h = bindE (Icon_dtor i h) (delete_icons rest)"

text \<open>\<^verbatim>\<open>Iconset::Private::clear()\<close> on the Private at \<open>d\<close>\<close>

definition SPrivate_clear :: "nat \<Rightarrow> ('a, 'p) state \<Rightarrow> error + ('a, 'p) state" where
  "SPrivate_clear d s =
     bindE (spriv_at s d) (\<lambda>P.
     bindE (on_icons (delete_icons (icon_list P)) s) (\<lambda>s1.
       Inr (s1\<lparr>sprivs := (sprivs s1)(d \<mapsto> P\<lparr>dict := Map.empty, icon_list := []\<rparr>)\<rparr>)))"

text \<open>\<^verbatim>\<open>delete d\<close> for an \<^verbatim>\<open>Iconset::Private\<close>: the destructor calls \<^verbatim>\<open>clear()\<close>.\<close>

definition SPrivate_delete :: "nat \<Rightarrow> ('a, 'p) state \<Rightarrow> error + ('a, 'p) state" where
  "SPrivate_delete d s =
     bindE (SPrivate_clear d s) (\<lambda>s1. Inr (s1\<lparr>sprivs := (sprivs s1)(d := None)\<rparr>))"

text \<open>
  The loop shared by the copy constructor of \<^verbatim>\<open>Iconset::Private\<close> and by
  \<^verbatim>\<open>Iconset::operator+=\<close>: for every icon of the list, \<^verbatim>\<open>new Icon(*it.next())\<close>
  appended to the Private at \<open>d\<close> under the name of the icon. The iterator walks a
  snapshot of the list.
\<close>

fun copy_icons :: "nat \<Rightarrow> nat list \<Rightarrow> ('a, 'p) state \<Rightarrow> error + ('a, 'p) state" where
  "copy_icons d [] s = Inr s"
| "copy_icons d (i # rest) s =
     bindE (Icon_copy_ctor i (ih s)) (\<lambda>(icon, h1).
     bindE (Icon_name icon h1) (\<lambda>n.
     bindE (SPrivate_append d n icon (s\<lparr>ih := h1\<rparr>)) (copy_icons d rest)))"

text \<open>\<^verbatim>\<open>Iconset::Private::Private(const Private &from)\<close>; the result is the new address.\<close>

definition SPrivate_copy ::
  "IconsetPrivate \<Rightarrow> ('a, 'p) state \<Rightarrow> error + (nat \<times> ('a, 'p) state)" where
  "SPrivate_copy from s =
     (let (d, s1) = new_addr s;
          s2 = s1\<lparr>sprivs := (sprivs s1)(d \<mapsto> SPrivate_setInformation from SPrivate_init)\<rparr>
      in bindE (copy_icons d (icon_list from) s2) (\<lambda>s3. Inr (d, s3)))"

text \<open>\<^verbatim>\<open>if ( d->deref() ) delete d;\<close> for an \<^verbatim>\<open>Iconset::Private\<close>\<close>

definition srelease :: "nat \<Rightarrow> ('a, 'p) state \<Rightarrow> error + ('a, 'p) state" where
  "srelease d s =
     bindE (spriv_at s d) (\<lambda>P.
       if scount P - 1 = 0 then SPrivate_delete d s
       else Inr (s\<lparr>sprivs := (sprivs s)(d \<mapsto> P\<lparr>scount := scount P - 1\<rparr>)\<rparr>))"

text \<open>\<^verbatim>\<open>Iconset::Iconset()\<close>; the result is the address of the new iconset.\<close>

definition Iconset_new :: "('a, 'p) state \<Rightarrow> nat \<times> ('a, 'p) state" where
  "Iconset_new s =
     (let (d, s1) = new_addr s;
          s2 = s1\<lparr>sprivs := (sprivs s1)(d \<mapsto> SPrivate_init)\<rparr>;
          (i, s3) = new_addr s2
      in (i, s3\<lparr>isets := (isets s3)(i \<mapsto> d)\<rparr>))"

text \<open>\<^verbatim>\<open>Iconset::Iconset(const Iconset &from)\<close>\<close>

definition Iconset_copy_ctor ::
  "nat \<Rightarrow> ('a, 'p) state \<Rightarrow> error + (nat \<times> ('a, 'p) state)" where
  "Iconset_copy_ctor from s =
     bindE (iconset_priv s from) (\<lambda>(d, P).
       let (i, s1) = new_addr s in
       Inr (i, s1\<lparr>isets := (isets s1)(i \<mapsto> d),
                  sprivs := (sprivs s1)(d \<mapsto> P\<lparr>scount := scount P + 1\<rparr>)\<rparr>))"

text \<open>\<^verbatim>\<open>Iconset::~Iconset()\<close>\<close>

definition Iconset_dtor :: "nat \<Rightarrow> ('a, 'p) state \<Rightarrow> error + ('a, 'p) state" where
  "Iconset_dtor this s =
     bindE (iconset_d s this) (\<lambda>d.
     bindE (srelease d s) (\<lambda>s1.
       Inr (s1\<lparr>isets := (isets s1)(this := None),
               fac := unregisterIconset (Some this) (fac s1)\<rparr>)))"

text \<open>\<^verbatim>\<open>Iconset::operator=(const Iconset &from)\<close>\<close>

definition Iconset_assign :: "nat \<Rightarrow> nat \<Rightarrow> ('a, 'p) state \<Rightarrow> error + ('a, 'p) state" where
  "Iconset_assign this from s =
     bindE (iconset_d s this) (\<lambda>d.
     bindE (srelease d s) (\<lambda>s1.
     bindE (iconset_priv s1 from) (\<lambda>(d', P').
       Inr (s1\<lparr>isets := (isets s1)(this \<mapsto> d'),
               sprivs := (sprivs s1)(d' \<mapsto> P'\<lparr>scount := scount P' + 1\<rparr>)\<rparr>))))"

text \<open>
  \<^verbatim>\<open>Iconset::copy()\<close>: a new iconset, whose own new Private is deleted at once and
  replaced by a copy of the Private of \<^verbatim>\<open>this\<close>. The local object is the returned one.
\<close>

definition Iconset_copy :: "nat \<Rightarrow> ('a, 'p) state \<Rightarrow> error + (nat \<times> ('a, 'p) state)" where
  "Iconset_copy this s =
     (let (i, s1) = Iconset_new s in
      bindE (iconset_d s1 i) (\<lambda>d0.
      bindE (SPrivate_delete d0 s1) (\<lambda>s2.
      bindE (iconset_priv s2 this) (\<lambda>(d, P).
      bindE (SPrivate_copy P s2) (\<lambda>(q, s3).
        Inr (i, s3\<lparr>isets := (isets s3)(i \<mapsto> q)\<rparr>))))))"

text \<open>\<^verbatim>\<open>Iconset::detach()\<close>: \<^verbatim>\<open>*this = copy();\<close> and the destruction of the temporary.\<close>

definition Iconset_detach :: "nat \<Rightarrow> ('a, 'p) state \<Rightarrow> error + ('a, 'p) state" where
  "Iconset_detach this s =
     bindE (iconset_priv s this) (\<lambda>(d, P).
       if scount P > 1 then
         bindE (Iconset_copy this s) (\<lambda>(tmp, s1).
         bindE (Iconset_assign this tmp s1) (\<lambda>s2.
           Iconset_dtor tmp s2))
       else Inr s)"

text \<open>\<^verbatim>\<open>Iconset::operator+=(const Iconset &i)\<close>\<close>

definition Iconset_add :: "nat \<Rightarrow> nat \<Rightarrow> ('a, 'p) state \<Rightarrow> error + ('a, 'p) state" where
  "Iconset_add this i s =
     bindE (Iconset_detach this s) (\<lambda>s1.
     bindE (iconset_priv s1 i) (\<lambda>(di, Pi).
     bindE (iconset_d s1 this) (\<lambda>d.
       copy_icons d (icon_list Pi) s1)))"

text \<open>\<^verbatim>\<open>Iconset::clear()\<close>\<close>

definition Iconset_clear :: "nat \<Rightarrow> ('a, 'p) state \<Rightarrow> error + ('a, 'p) state" where
  "Iconset_clear this s =
     bindE (Iconset_detach this s) (\<lambda>s1.
     bindE (iconset_d s1 this) (\<lambda>d. SPrivate_clear d s1))"

text \<open>\<^verbatim>\<open>Iconset::count()\<close>\<close>

definition Iconset_count :: "nat \<Rightarrow> ('a, 'p) state \<Rightarrow> error + nat" where
  "Iconset_count this s = bindE (iconset_priv s this) (\<lambda>(d, P). Inr (length (icon_list P)))"

text \<open>
  \<^verbatim>\<open>Iconset::icon(const QString &name)\<close>. The member \<^verbatim>\<open>d\<close> is a pointer to a
  non-const Private, so \<^verbatim>\<open>d->dict[name]\<close> is the non-const \<^verbatim>\<open>operator[]\<close> of
  \<^verbatim>\<open>QHash\<close>, which inserts a null pointer under a name that is absent.
\<close>

definition Iconset_icon ::
  "nat \<Rightarrow> string \<Rightarrow> ('a, 'p) state \<Rightarrow> error + (nat option \<times> ('a, 'p) state)" where
  "Iconset_icon this n s =
     bindE (iconset_priv s this) (\<lambda>(d, P).
       if dict P = Map.empty then Inr (None, s)
       else (case dict P n of
               Some i \<Rightarrow> Inr (i, s)
             | None \<Rightarrow>
                 Inr (None, s\<lparr>sprivs := (sprivs s)(d \<mapsto> P\<lparr>dict := (dict P)(n \<mapsto> None)\<rparr>)\<rparr>)))"

text \<open>\<^verbatim>\<open>Iconset::setIcon(const QString &name, const Icon &icon)\<close>\<close>

definition Iconset_setIcon ::
  "nat \<Rightarrow> string \<Rightarrow> nat \<Rightarrow> ('a, 'p) state \<Rightarrow> error + ('a, 'p) state" where
  "Iconset_setIcon this n icon s =
     bindE (Iconset_detach this s) (\<lambda>s1.
     bindE (Icon_copy_ctor icon (ih s1)) (\<lambda>(newIcon, h2).
     bindE (iconset_d s1 this) (\<lambda>d.
     bindE (SPrivate_remove d n (s1\<lparr>ih := h2\<rparr>)) (\<lambda>s3.
       SPrivate_append d n newIcon s3))))"

text \<open>\<^verbatim>\<open>Iconset::removeIcon(const QString &name)\<close>\<close>

definition Iconset_removeIcon :: "nat \<Rightarrow> string \<Rightarrow> ('a, 'p) state \<Rightarrow> error + ('a, 'p) state" where
  "Iconset_removeIcon this n s =
     bindE (Iconset_detach this s) (\<lambda>s1.
     bindE (iconset_d s1 this) (\<lambda>d. SPrivate_remove d n s1))"

text \<open>Writing a changed Private back through \<^verbatim>\<open>d\<close> of an iconset.\<close>

definition modify_spriv ::
  "nat \<Rightarrow> (IconsetPrivate \<Rightarrow> IconsetPrivate) \<Rightarrow> ('a, 'p) state \<Rightarrow> error + ('a, 'p) state" where
  "modify_spriv this f s =
     bindE (iconset_priv s this) (\<lambda>(d, P). Inr (s\<lparr>sprivs := (sprivs s)(d \<mapsto> f P)\<rparr>))"

text \<open>
  \<^verbatim>\<open>Iconset::name()\<close>, \<^verbatim>\<open>version()\<close>, \<^verbatim>\<open>description()\<close>, \<^verbatim>\<open>authors()\<close>, \<^verbatim>\<open>creation()\<close>,
  \<^verbatim>\<open>homeUrl()\<close>, \<^verbatim>\<open>fileName()\<close>, \<^verbatim>\<open>info()\<close>
\<close>

definition Iconset_name :: "nat \<Rightarrow> ('a, 'p) state \<Rightarrow> error + string" where
  "Iconset_name this s = bindE (iconset_priv s this) (\<lambda>(d, P). Inr (sname P))"

definition Iconset_version :: "nat \<Rightarrow> ('a, 'p) state \<Rightarrow> error + string" where
  "Iconset_version this s = bindE (iconset_priv s this) (\<lambda>(d, P). Inr (version P))"

definition Iconset_description :: "nat \<Rightarrow> ('a, 'p) state \<Rightarrow> error + string" where
  "Iconset_description this s = bindE (iconset_priv s this) (\<lambda>(d, P). Inr (description P))"

definition Iconset_authors :: "nat \<Rightarrow> ('a, 'p) state \<Rightarrow> error + string list" where
  "Iconset_authors this s = bindE (iconset_priv s this) (\<lambda>(d, P). Inr (authors P))"

definition Iconset_creation :: "nat \<Rightarrow> ('a, 'p) state \<Rightarrow> error + string" where
  "Iconset_creation this s = bindE (iconset_priv s this) (\<lambda>(d, P). Inr (creation P))"

definition Iconset_homeUrl :: "nat \<Rightarrow> ('a, 'p) state \<Rightarrow> error + string" where
  "Iconset_homeUrl this s = bindE (iconset_priv s this) (\<lambda>(d, P). Inr (homeUrl P))"


definition Iconset_info :: "nat \<Rightarrow> ('a, 'p) state \<Rightarrow> error + (string \<rightharpoonup> string)" where
  "Iconset_info this s = bindE (iconset_priv s this) (\<lambda>(d, P). Inr (info P))"

text \<open>\<^verbatim>\<open>Iconset::setFileName(const QString &f)\<close>\<close>

definition Iconset_setFileName :: "nat \<Rightarrow> string \<Rightarrow> ('a, 'p) state \<Rightarrow> error + ('a, 'p) state" where
  "Iconset_setFileName this f s = modify_spriv this (\<lambda>P. P\<lparr>filename := f\<rparr>) s"


text \<open>\<^verbatim>\<open>Iconset::setInfo(const QHash<QString, QString> &i)\<close>\<close>

definition Iconset_setInfo ::
  "nat \<Rightarrow> (string \<rightharpoonup> string) \<Rightarrow> ('a, 'p) state \<Rightarrow> error + ('a, 'p) state" where
  "Iconset_setInfo this i s = modify_spriv this (\<lambda>P. P\<lparr>info := i\<rparr>) s"

subsection \<open>IconsetFactory: looking an icon up\<close>

text \<open>
  The \<^verbatim>\<open>foreach\<close> loop of \<^verbatim>\<open>IconsetFactoryPrivate::icon\<close> over the registered
  pointers. A null entry is skipped; the loop ends at the first non-null result of
  \<^verbatim>\<open>Iconset::icon\<close>.
\<close>

fun icon_loop ::
  "nat option list \<Rightarrow> string \<Rightarrow> ('a, 'p) state \<Rightarrow> error + (nat option \<times> ('a, 'p) state)" where
  "icon_loop [] n s = Inr (None, s)"
| "icon_loop (None # rest) n s = icon_loop rest n s"
| "icon_loop (Some iconset # rest) n s =
     bindE (Iconset_icon iconset n s) (\<lambda>(i, s1).
       if i \<noteq> None then Inr (i, s1) else icon_loop rest n s1)"

text \<open>\<^verbatim>\<open>IconsetFactoryPrivate::icon(const QString &name)\<close>\<close>

definition IconsetFactoryPrivate_icon ::
  "string \<Rightarrow> ('a, 'p) state \<Rightarrow> error + (nat option \<times> ('a, 'p) state)" where
  "IconsetFactoryPrivate_icon n s =
     (case iconsets (fac s) of None \<Rightarrow> Inr (None, s) | Some l \<Rightarrow> icon_loop l n s)"

text \<open>\<^verbatim>\<open>IconsetFactory::iconPtr(const QString &name)\<close>\<close>

definition IconsetFactory_iconPtr ::
  "string \<Rightarrow> ('a, 'p) state \<Rightarrow> error + (nat option \<times> ('a, 'p) state)" where
  "IconsetFactory_iconPtr n s = IconsetFactoryPrivate_icon n s"

text \<open>
  \<^verbatim>\<open>IconsetFactory::icon(const QString &name)\<close>: the returned \<^verbatim>\<open>Icon\<close> is a new object,
  copy-constructed from the icon found or default-constructed.
\<close>

definition IconsetFactory_icon ::
  "string \<Rightarrow> ('a, 'p) state \<Rightarrow> error + (nat \<times> ('a, 'p) state)" where
  "IconsetFactory_icon n s =
     bindE (IconsetFactory_iconPtr n s) (\<lambda>(i, s1).
       case i of
         Some a \<Rightarrow> bindE (Icon_copy_ctor a (ih s1)) (\<lambda>(r, h2). Inr (r, s1\<lparr>ih := h2\<rparr>))
       | None \<Rightarrow> (let (r, h2) = Icon_new (ih s1) in Inr (r, s1\<lparr>ih := h2\<rparr>)))"


subsection \<open>Loading an iconset\<close>




















subsection \<open>Live icons\<close>

text \<open>
  An icon is live in a store when the icon and the Private it points to are allocated,
  at addresses below \<open>next_addr\<close>, so that \<^verbatim>\<open>new\<close> returns neither of them.
\<close>

definition live_icon :: "('a, 'p) icon_heap \<Rightarrow> nat \<Rightarrow> bool" where
  "live_icon h this =
     (case icons h this of
        None \<Rightarrow> False
      | Some d \<Rightarrow> privs h d \<noteq> None \<and> this < next_addr h \<and> d < next_addr h)"

subsection \<open>Well-formed stores of icons\<close>

text \<open>The icons that point to the Private at \<open>q\<close>.\<close>

definition refs :: "('a, 'p) icon_heap \<Rightarrow> nat \<Rightarrow> nat set" where
  "refs h q = {i. icons h i = Some q}"

text \<open>
  A store of icons is well formed when every live address is below \<open>next_addr\<close>, every
  live icon points to a live Private, and the reference count of every live Private is
  the number of icons that point to it.
\<close>

definition wf_heap :: "('a, 'p) icon_heap \<Rightarrow> bool" where
  "wf_heap h \<longleftrightarrow>
     (\<forall>i. icons h i \<noteq> None \<longrightarrow> i < next_addr h) \<and>
     (\<forall>q. privs h q \<noteq> None \<longrightarrow> q < next_addr h) \<and>
     (\<forall>i q. icons h i = Some q \<longrightarrow> privs h q \<noteq> None) \<and>
     (\<forall>q P. privs h q = Some P \<longrightarrow> count P = card (refs h q))"

subsection \<open>Consistency of the hash and the list of an iconset\<close>

text \<open>
  The hash and the list of an \<^verbatim>\<open>Iconset::Private\<close> are consistent when the list has no
  icon twice, every icon stored in the hash is in the list, every icon of the list is
  stored in the hash, and no icon is stored under two names. The bound \<open>n\<close> says that
  the icons of the list were allocated before the address \<open>n\<close>.
\<close>

definition consistent :: "nat \<Rightarrow> IconsetPrivate \<Rightarrow> bool" where
  "consistent n P \<longleftrightarrow>
     distinct (icon_list P) \<and>
     (\<forall>i \<in> set (icon_list P). i < n) \<and>
     (\<forall>k i. dict P k = Some (Some i) \<longrightarrow> i \<in> set (icon_list P)) \<and>
     (\<forall>i \<in> set (icon_list P). \<exists>k. dict P k = Some (Some i)) \<and>
     (\<forall>k k' i. dict P k = Some (Some i) \<and> dict P k' = Some (Some i) \<longrightarrow> k = k')"

definition cons_below :: "nat \<Rightarrow> ('a, 'p) state \<Rightarrow> bool" where
  "cons_below n s \<longleftrightarrow> (\<forall>d P. sprivs s d = Some P \<longrightarrow> consistent n P)"

definition all_consistent :: "('a, 'p) state \<Rightarrow> bool" where
  "all_consistent s \<longleftrightarrow> cons_below (next_addr (ih s)) s"

text \<open>Sequences of the operations that change the icons of an iconset.\<close>

datatype iconset_call =
    SetIcon nat string nat
  | RemoveIcon nat string
  | Add nat nat
  | Clear nat

fun do_iconset_call :: "iconset_call \<Rightarrow> ('a, 'p) state \<Rightarrow> error + ('a, 'p) state" where
  "do_iconset_call (SetIcon this n icon) s = Iconset_setIcon this n icon s"
| "do_iconset_call (RemoveIcon this n) s = Iconset_removeIcon this n s"
| "do_iconset_call (Add this i) s = Iconset_add this i s"
| "do_iconset_call (Clear this) s = Iconset_clear this s"

fun run_iconset_calls :: "iconset_call list \<Rightarrow> ('a, 'p) state \<Rightarrow> error + ('a, 'p) state" where
  "run_iconset_calls [] s = Inr s"
| "run_iconset_calls (c # cs) s = bindE (do_iconset_call c s) (run_iconset_calls cs)"

text \<open>
  The content of a Private after \<^verbatim>\<open>remove(k)\<close> and after \<^verbatim>\<open>append(k, icon)\<close>, as
  functions of the content before.
\<close>

definition removed :: "string \<Rightarrow> IconsetPrivate \<Rightarrow> IconsetPrivate" where
  "removed k P =
     P\<lparr>dict := (dict P)(k := None),
       icon_list := (case dict P k of
                       Some (Some a) \<Rightarrow> removeAll a (icon_list P)
                     | _ \<Rightarrow> icon_list P)\<rparr>"

definition appended :: "string \<Rightarrow> nat \<Rightarrow> IconsetPrivate \<Rightarrow> IconsetPrivate" where
  "appended k icon P =
     (removed k P)\<lparr>dict := (dict (removed k P))(k \<mapsto> Some icon),
                   icon_list := icon_list (removed k P) @ [icon]\<rparr>"

subsection \<open>What the factory is said to return\<close>

text \<open>
  The icon stored in the iconset at \<open>a\<close> under the name \<open>n\<close>, if the iconset is live and
  stores an icon (not a null pointer) under that name.
\<close>

definition lookup :: "('a, 'p) state \<Rightarrow> nat \<Rightarrow> string \<Rightarrow> nat option" where
  "lookup s a n =
     (case isets s a of
        None \<Rightarrow> None
      | Some d \<Rightarrow>
          (case sprivs s d of
             None \<Rightarrow> None
           | Some P \<Rightarrow> (case dict P n of Some (Some i) \<Rightarrow> Some i | _ \<Rightarrow> None)))"

text \<open>The first icon of that name, going through the registered iconsets in order.\<close>

fun first_icon :: "('a, 'p) state \<Rightarrow> nat option list \<Rightarrow> string \<Rightarrow> nat option" where
  "first_icon s [] n = None"
| "first_icon s (None # rest) n = first_icon s rest n"
| "first_icon s (Some a # rest) n =
     (case lookup s a n of Some i \<Rightarrow> Some i | None \<Rightarrow> first_icon s rest n)"

text \<open>Every registered pointer that is not null points to a live iconset with a live Private.\<close>

definition registry_live :: "('a, 'p) state \<Rightarrow> bool" where
  "registry_live s \<longleftrightarrow>
     (\<forall>a. Some a \<in> set (entries (fac s)) \<longrightarrow>
        (\<exists>d P. isets s a = Some d \<and> sprivs s d = Some P))"

text \<open>
  \<open>null_ext s s'\<close>: the state \<open>s'\<close> is \<open>s\<close> except that some hashes have got null pointers
  under names that were absent.
\<close>

definition null_ext :: "('a, 'p) state \<Rightarrow> ('a, 'p) state \<Rightarrow> bool" where
  "null_ext s s' \<longleftrightarrow>
     ih s' = ih s \<and> isets s' = isets s \<and> fac s' = fac s \<and>
     (\<forall>d. (sprivs s d = None \<longrightarrow> sprivs s' d = None) \<and>
          (\<forall>P. sprivs s d = Some P \<longrightarrow>
             (\<exists>D. sprivs s' d = Some (P\<lparr>dict := D\<rparr>) \<and>
                  (\<forall>k. D k = dict P k \<or> (dict P k = None \<and> D k = Some None)))))"

text \<open>The content of a default-constructed \<^verbatim>\<open>Icon::Private\<close>.\<close>

definition empty_Private :: "('a, 'p) IconPrivate" where
  "empty_Private =
     \<lparr>count = 1, name = [], regExp = [], icon_text = [], sound = None,
      impix = None, anim = None, activatedCount = 0\<rparr>"

subsection \<open>Live iconsets\<close>


text \<open>Two Privates of iconsets that differ at most in the hash and the list of icons.\<close>

definition same_info :: "IconsetPrivate \<Rightarrow> IconsetPrivate \<Rightarrow> bool" where
  "same_info P P' \<longleftrightarrow>
     scount P' = scount P \<and> sname P' = sname P \<and> version P' = version P \<and>
     description P' = description P \<and> creation P' = creation P \<and> homeUrl P' = homeUrl P \<and>
     filename P' = filename P \<and> authors P' = authors P \<and> info P' = info P"

subsection \<open>What an operation leaves alone\<close>

text \<open>
  \<open>hstep B h h'\<close> relates two stores of icons with respect to a set \<open>B\<close> of icons:
  the icons in \<open>B\<close> are the same in both, and a Private that an icon in \<open>B\<close> points to
  is still live with the same content, up to its reference count.
\<close>

definition hstep :: "nat set \<Rightarrow> ('a, 'p) icon_heap \<Rightarrow> ('a, 'p) icon_heap \<Rightarrow> bool" where
  "hstep B h h' \<longleftrightarrow>
     next_addr h \<le> next_addr h' \<and>
     (\<forall>i \<in> B. icons h' i = icons h i) \<and>
     (\<forall>i q Q. i \<in> B \<and> icons h i = Some q \<and> privs h q = Some Q \<longrightarrow>
        (\<exists>c. privs h' q = Some (Q\<lparr>count := c\<rparr>)))"



text \<open>
  \<open>step n0 this s s'\<close> relates two states: besides \<open>hstep\<close> for the icons below the
  address \<open>n0\<close>, the iconsets below \<open>n0\<close> other than \<open>this\<close> point to the same
  Privates, and a Private of iconsets below \<open>n0\<close> is still live with the same content,
  up to its reference count.
\<close>

definition step :: "nat \<Rightarrow> nat \<Rightarrow> ('a, 'p) state \<Rightarrow> ('a, 'p) state \<Rightarrow> bool" where
  "step n0 this s s' \<longleftrightarrow>
     hstep {..<n0} (ih s) (ih s') \<and>
     (\<forall>j < n0. j \<noteq> this \<longrightarrow> isets s' j = isets s j) \<and>
     (\<forall>d P. d < n0 \<and> sprivs s d = Some P \<longrightarrow> (\<exists>c. sprivs s' d = Some (P\<lparr>scount := c\<rparr>)))"


subsection \<open>Well-formed states\<close>

text \<open>
  A state is well formed when its store of icons is, every iconset and every Private of
  iconsets is allocated below \<open>next_addr\<close>, every iconset points to a live Private, the
  icons in the hash and the list of a Private are allocated below \<open>next_addr\<close>, and the
  reference count of a Private is the number of iconsets that point to it.
\<close>

definition wf_state :: "('a, 'p) state \<Rightarrow> bool" where
  "wf_state s \<longleftrightarrow>
     wf_heap (ih s) \<and>
     (\<forall>i d. isets s i = Some d \<longrightarrow>
        i < next_addr (ih s) \<and> d < next_addr (ih s) \<and> sprivs s d \<noteq> None) \<and>
     (\<forall>d P. sprivs s d = Some P \<longrightarrow>
        d < next_addr (ih s) \<and>
        (\<forall>i \<in> set (icon_list P). i < next_addr (ih s)) \<and>
        (\<forall>k i. dict P k = Some (Some i) \<longrightarrow> i < next_addr (ih s)) \<and>
        scount P = card {i. isets s i = Some d})"

subsection \<open>The operations of an iconset that detach\<close>



subsection \<open>The operations of an icon that detach\<close>









subsection \<open>Concrete values for the parameters\<close>

text \<open>
  An instance of the parameters, for evaluating the model: an animation is the list of
  its frames together with a pause flag, image data is a number, the decoder reads one
  frame per byte.
\<close>

definition example_ext :: "(nat list \<times> bool, nat) ext" where
  "example_ext =
     \<lparr>numFrames = (\<lambda>a. int (length (fst a))),
      frame = (\<lambda>a k. if 0 \<le> k \<and> nat k < length (fst a) then Some (fst a ! nat k) else None),
      pause = (\<lambda>a. (fst a, True)),
      unpause = (\<lambda>a. (fst a, False)),
      restart = (\<lambda>a. a),
      stripFirstFrame = (\<lambda>a. (tl (fst a), snd a)),
      animFromData = (\<lambda>ba. (map of_char ba, False)),
      imageFromData = (\<lambda>ba. case ba of [] \<Rightarrow> None | c # cs \<Rightarrow> Some (of_char c)),
      setImpix_doDetach = True,
      setAnim_doDetach = True\<rparr>"

definition empty_heap :: "(nat list \<times> bool, nat) icon_heap" where
  "empty_heap = \<lparr>icons = Map.empty, privs = Map.empty, next_addr = 0, uninit = (\<lambda>a. 0)\<rparr>"

definition empty_state :: "(nat list \<times> bool, nat) state" where
  "empty_state = \<lparr>ih = empty_heap, isets = Map.empty, sprivs = Map.empty, fac = factory_init\<rparr>"

text \<open>A stand-in for \<^verbatim>\<open>QString(fmt).arg(s).arg(t)\<close> that keeps the three strings.\<close>

definition example_arg :: "string \<Rightarrow> string \<Rightarrow> string \<Rightarrow> string" where
  "example_arg fmt s t = fmt @ ''|'' @ s @ ''|'' @ t"

definition example_meta :: dom where
  "example_meta =
     Element ''meta'' []
       [Element ''name'' [] [Text ''Stellar''],
        Text ''  '',
        Element ''version'' [] [Text ''1.0''],
        Element ''description'' [] [Text ''Default '', Element ''b'' [] [Text ''icons'']],
        Element ''author'' [(''email'', ''a@b.c'')] [Text ''Alice''],
        Other,
        Element ''author'' [] [Text ''Bob''],
        Element ''creation'' [] [Text ''2003-07-08''],
        Element ''home'' [] [Text ''http://psi.example''],
        Element ''name'' [] [Text ''Stellar 2'']]"

text \<open>A state with one iconset, at address 1, whose Private went through \<^verbatim>\<open>loadMeta\<close>.\<close>

definition example_meta_state :: "(nat list \<times> bool, nat) state" where
  "example_meta_state =
     \<lparr>ih = empty_heap, isets = [1 \<mapsto> 0],
      sprivs = [0 \<mapsto> loadMeta example_arg example_meta SPrivate_init], fac = factory_init\<rparr>"

text \<open>
  A state with one icon, at address 1 with its Private at 0, and one empty iconset, at
  address 3 with its Private at 2.
\<close>

definition example_state :: "(nat list \<times> bool, nat) state" where
  "example_state = snd (Iconset_new (empty_state\<lparr>ih := snd (Icon_new empty_heap)\<rparr>))"

text \<open>
  The state above after \<^verbatim>\<open>setIcon("a", icon)\<close> on the iconset and its registration in
  the factory.
\<close>

definition example_factory_state :: "(nat list \<times> bool, nat) state" where
  "example_factory_state =
     (case Iconset_setIcon 3 ''a'' 1 example_state of
        Inr s \<Rightarrow> s\<lparr>fac := Iconset_addToFactory 3 (fac s)\<rparr>
      | Inl e \<Rightarrow> example_state)"






text \<open>
  A heap with one icon, at address 1, that holds an animation of two frames and has
  the activation counter 0.
\<close>

definition animated_icon :: "(nat list \<times> bool, nat) icon_heap" where
  "animated_icon =
     (case Icon_setAnim example_ext ([7, 8], False) True 1 (snd (Icon_new empty_heap)) of
        Inr h \<Rightarrow> h
      | Inl e \<Rightarrow> empty_heap)"

text \<open>
  The state with one icon and one empty iconset, after \<^verbatim>\<open>setName("b")\<close> on the icon.
\<close>

definition named_state :: "(nat list \<times> bool, nat) state" where
  "named_state =
     (case on_icons (Icon_setName ''b'' 1) example_state of
        Inr s \<Rightarrow> s
      | Inl e \<Rightarrow> example_state)"

text \<open>
  A state with two iconsets, at addresses 3 and 5, that share the Private at address 2,
  which stores under the name \<^verbatim>\<open>a\<close> the icon at address 4, a copy of the icon at
  address 1.
\<close>

definition shared_state :: "(nat list \<times> bool, nat) state" where
  "shared_state =
     (case Iconset_setIcon 3 ''a'' 1 example_state of
        Inr s \<Rightarrow> (case Iconset_copy_ctor 3 s of Inr (b, s') \<Rightarrow> s' | Inl e \<Rightarrow> example_state)
      | Inl e \<Rightarrow> example_state)"

section \<open>Properties\<close>

subsection \<open>Signed 32-bit arithmetic\<close>

lemma sint_le_MAX: "sint (c :: 32 word) \<le> INT_MAX"
  using sint_lt[of c] by (simp add: INT_MAX_def)

lemma sint_ge_MIN: "INT_MIN \<le> sint (c :: 32 word)"
  using sint_ge[of c] by (simp add: INT_MIN_def)

lemma sint_lt_MAX: "sint (c :: 32 word) \<noteq> INT_MAX \<longleftrightarrow> sint c < INT_MAX"
  using sint_le_MAX[of c] by auto

lemma sint_gt_MIN: "sint (c :: 32 word) \<noteq> INT_MIN \<longleftrightarrow> INT_MIN < sint c"
  using sint_ge_MIN[of c] by auto

lemma sint_inc: "sint (c :: 32 word) \<noteq> INT_MAX \<Longrightarrow> sint (c + 1) = sint c + 1"
proof -
  assume a: "sint c \<noteq> INT_MAX"
  have "sint c < 2 ^ 31" "- (2 ^ 31) \<le> sint c"
    using sint_lt[of c] sint_ge[of c] by simp_all
  with a have "- (2 ^ 31) \<le> sint c + 1" "sint c + 1 < 2 ^ 31"
    by (simp_all add: INT_MAX_def)
  then have "signed_take_bit 31 (sint c + 1) = sint c + 1"
    by (simp add: signed_take_bit_int_eq_self)
  then show ?thesis by (simp add: sint_word_add)
qed

lemma sint_dec: "sint (c :: 32 word) \<noteq> INT_MIN \<Longrightarrow> sint (c - 1) = sint c - 1"
proof -
  assume a: "sint c \<noteq> INT_MIN"
  have "sint c < 2 ^ 31" "- (2 ^ 31) \<le> sint c"
    using sint_lt[of c] sint_ge[of c] by simp_all
  with a have "- (2 ^ 31) \<le> sint c - 1" "sint c - 1 < 2 ^ 31"
    by (simp_all add: INT_MIN_def)
  then have "signed_take_bit 31 (sint c - 1) = sint c - 1"
    by (simp add: signed_take_bit_int_eq_self)
  then show ?thesis by (simp add: sint_word_diff)
qed

subsection \<open>The activation counter\<close>

lemma icon_priv_Inr:
  "icon_priv h i = Inr (d, P) \<longleftrightarrow> icons h i = Some d \<and> privs h d = Some P"
  by (auto simp: icon_priv_def icon_d_def priv_at_def bindE_def split: option.splits)

lemma counter_Some:
  "counter h i = Some n \<longleftrightarrow>
     (\<exists>d P. icons h i = Some d \<and> privs h d = Some P \<and> sint (activatedCount P) = n)"
  by (auto simp: counter_def icon_priv_Inr split: sum.splits)
     (auto simp: icon_priv_def icon_d_def priv_at_def bindE_def split: option.splits)

lemma activated_counter:
  "Icon_activated E b i h = Inr h' \<Longrightarrow>
     \<exists>n. counter h i = Some n \<and> n < INT_MAX \<and> counter h' i = Some (n + 1)"
  unfolding Icon_activated_def counter_Some
  by (auto simp: icon_priv_def icon_d_def priv_at_def bindE_def sint_inc sint_lt_MAX[symmetric]
           split: option.splits if_splits)

lemma activated_total:
  "counter h i = Some n \<Longrightarrow> n < INT_MAX \<Longrightarrow> \<exists>h'. Icon_activated E b i h = Inr h'"
  unfolding Icon_activated_def counter_Some
  by (auto simp: icon_priv_def icon_d_def priv_at_def bindE_def split: option.splits if_splits)

lemma stop_counter:
  "Icon_stop E i h = Inr h' \<Longrightarrow>
     \<exists>n. counter h i = Some n \<and> INT_MIN < n \<and> counter h' i = Some (max 0 (n - 1))"
  unfolding Icon_stop_def counter_Some
  by (auto simp: icon_priv_def icon_d_def priv_at_def bindE_def sint_dec sint_gt_MIN[symmetric]
           Let_def split: option.splits if_splits)

lemma stop_total:
  "counter h i = Some n \<Longrightarrow> INT_MIN < n \<Longrightarrow> \<exists>h'. Icon_stop E i h = Inr h'"
  unfolding Icon_stop_def counter_Some
  by (auto simp: icon_priv_def icon_d_def priv_at_def bindE_def Let_def
           split: option.splits if_splits)

lemma do_call_counter:
  "do_call E i c h = Inr h' \<Longrightarrow> counter h i = Some n \<Longrightarrow> 0 \<le> n \<Longrightarrow>
     \<exists>m. counter h' i = Some m \<and> 0 \<le> m \<and> m \<le> n + 1"
  by (cases c) (auto dest!: activated_counter stop_counter)

lemma run_calls_counter:
  "run_calls E i cs h = Inr h' \<Longrightarrow> counter h i = Some n \<Longrightarrow> 0 \<le> n \<Longrightarrow>
     \<exists>m. counter h' i = Some m \<and> 0 \<le> m"
proof (induction cs arbitrary: h n)
  case Nil
  then show ?case by auto
next
  case (Cons c cs)
  from Cons.prems(1) obtain h1 where c: "do_call E i c h = Inr h1"
    and r: "run_calls E i cs h1 = Inr h'"
    by (auto simp: bindE_def split: sum.splits)
  from do_call_counter[OF c Cons.prems(2,3)] obtain m where "counter h1 i = Some m" "0 \<le> m"
    by blast
  with Cons.IH[OF r] show ?case by blast
qed

lemma do_call_total:
  "counter h i = Some n \<Longrightarrow> 0 \<le> n \<Longrightarrow> n < INT_MAX \<Longrightarrow> \<exists>h'. do_call E i c h = Inr h'"
  by (cases c) (auto intro: activated_total stop_total simp: INT_MIN_def)

lemma run_calls_total:
  "counter h i = Some n \<Longrightarrow> 0 \<le> n \<Longrightarrow> n + int (length cs) \<le> INT_MAX \<Longrightarrow>
     \<exists>h'. run_calls E i cs h = Inr h'"
proof (induction cs arbitrary: h n)
  case Nil
  then show ?case by simp
next
  case (Cons c cs)
  from Cons.prems have "n < INT_MAX" by simp
  from do_call_total[OF Cons.prems(1,2) this] obtain h1 where c: "do_call E i c h = Inr h1"
    by blast
  from do_call_counter[OF c Cons.prems(1,2)]
  obtain m where m: "counter h1 i = Some m" "0 \<le> m" "m \<le> n + 1"
    by blast
  with Cons.prems(3) have "m + int (length cs) \<le> INT_MAX" by simp
  from Cons.IH[OF m(1,2) this] c show ?case by (auto simp: bindE_def)
qed

lemma Icon_new_counter: "Icon_new h0 = (i, h) \<Longrightarrow> counter h i = Some 0"
  by (auto simp: Icon_new_def Private_new_def Let_def counter_Some)

lemma stop_resets:
  "icon_priv h i = Inr (d, P) \<Longrightarrow> sint (activatedCount P) \<noteq> INT_MIN \<Longrightarrow>
   sint (activatedCount P) - 1 \<le> 0 \<Longrightarrow>
     \<exists>h' P'. Icon_stop E i h = Inr h' \<and> icon_priv h' i = Inr (d, P') \<and>
        activatedCount P' = 0 \<and> anim P' = map_option (\<lambda>a. restart E (pause E a)) (anim P)"
  unfolding Icon_stop_def icon_priv_Inr
  by (auto simp: icon_priv_def icon_d_def priv_at_def bindE_def Let_def sint_dec)

lemma animated_icon_eq:
  "animated_icon = \<lparr>icons = [1 \<mapsto> 0],
     privs = [0 \<mapsto> \<lparr>count = 1, name = [], regExp = [], icon_text = [], sound = None,
                impix = Some 7, anim = Some ([7, 8], False), activatedCount = 0\<rparr>],
     next_addr = 2, uninit = (\<lambda>a. 0)\<rparr>"
  by (simp add: animated_icon_def Icon_setAnim_def Icon_setImpix_def Icon_detach_def
      modify_priv_def Icon_new_def Private_new_def empty_heap_def example_ext_def
      icon_priv_def icon_d_def priv_at_def bindE_def Let_def numeral_2_eq_2)

text \<open>
  C9. The activation counter of an icon never goes negative. Take any icon whose counter
  is 0, as it is in a new icon, with or without an animation. After any sequence of
  \<^verbatim>\<open>activated()\<close> and \<^verbatim>\<open>stop()\<close> calls on it that the program survives, the counter is at
  least 0, and a further \<^verbatim>\<open>stop()\<close> that would take it to 0 or below returns, leaves it at
  exactly 0 and, when the icon holds an animation, stores the animation paused and
  restarted. The only call the program does not survive is the \<^verbatim>\<open>activated()\<close> that
  overflows the \<^verbatim>\<open>int\<close>: every sequence of at most \<open>INT_MAX\<close> calls runs to its end.
\<close>

theorem activatedCount_never_negative:
  "counter h i = Some 0 \<Longrightarrow>
     (int (length cs) \<le> INT_MAX \<longrightarrow> (\<exists>h'. run_calls E i cs h = Inr h')) \<and>
     (\<forall>h'. run_calls E i cs h = Inr h' \<longrightarrow>
        (\<exists>m. counter h' i = Some m \<and> 0 \<le> m) \<and>
        (\<forall>d P. icon_priv h' i = Inr (d, P) \<and> sint (activatedCount P) - 1 \<le> 0 \<longrightarrow>
           (\<exists>h'' P'. Icon_stop E i h' = Inr h'' \<and> icon_priv h'' i = Inr (d, P') \<and>
              activatedCount P' = 0 \<and>
              anim P' = map_option (\<lambda>a. restart E (pause E a)) (anim P))))"
proof (intro conjI allI impI)
  assume c0: "counter h i = Some 0"
  show "\<exists>h'. run_calls E i cs h = Inr h'" if "int (length cs) \<le> INT_MAX"
    using run_calls_total[OF c0, of cs E] that by simp
  fix h' assume run: "run_calls E i cs h = Inr h'"
  from run_calls_counter[OF run c0] show nonneg: "\<exists>m. counter h' i = Some m \<and> 0 \<le> m"
    by simp
  fix d P assume "icon_priv h' i = Inr (d, P) \<and> sint (activatedCount P) - 1 \<le> 0"
  then have p: "icon_priv h' i = Inr (d, P)" and le: "sint (activatedCount P) - 1 \<le> 0"
    by simp_all
  from nonneg p have "0 \<le> sint (activatedCount P)"
    by (auto simp: counter_Some icon_priv_Inr)
  then have "sint (activatedCount P) \<noteq> INT_MIN" by (simp add: INT_MIN_def)
  from stop_resets[OF p this le]
  show "\<exists>h'' P'. Icon_stop E i h' = Inr h'' \<and> icon_priv h'' i = Inr (d, P') \<and>
          activatedCount P' = 0 \<and> anim P' = map_option (\<lambda>a. restart E (pause E a)) (anim P)" .
qed

theorem activatedCount_never_negative_witness:
  "counter animated_icon 1 = Some 0 \<and>
   (\<exists>h'. run_calls example_ext 1 [Activated True, Activated False, Stop] animated_icon = Inr h' \<and>
      counter h' 1 = Some 1 \<and>
      (\<exists>d P. icon_priv h' 1 = Inr (d, P) \<and> anim P = Some ([7, 8], False) \<and>
         (\<exists>h'' P'. Icon_stop example_ext 1 h' = Inr h'' \<and> icon_priv h'' 1 = Inr (d, P') \<and>
            activatedCount P' = 0 \<and> anim P' = Some ([7, 8], True))))"
proof -
  have c0: "counter animated_icon 1 = Some 0"
    by (simp add: animated_icon_eq counter_def icon_priv_def icon_d_def priv_at_def bindE_def)
  have len: "int (length [Activated True, Activated False, Stop]) \<le> INT_MAX"
    by (simp add: INT_MAX_def)
  note inst = activatedCount_never_negative[OF c0,
      of "[Activated True, Activated False, Stop]" example_ext]
  from inst len obtain h' where
    run: "run_calls example_ext 1 [Activated True, Activated False, Stop] animated_icon = Inr h'"
    by blast
  have v: "icon_priv h' 1 = Inr (0, \<lparr>count = 1, name = [], regExp = [], icon_text = [],
      sound = None, impix = Some 7, anim = Some ([7, 8], False), activatedCount = 1\<rparr>)"
    using run
    by (auto simp: animated_icon_eq bindE_def example_ext_def
          Icon_activated_def Icon_stop_def icon_priv_def icon_d_def priv_at_def
          INT_MAX_def INT_MIN_def)
  then have c1: "counter h' 1 = Some 1" by (simp add: counter_def)
  from v have le: "icon_priv h' 1 = Inr (0, \<lparr>count = 1, name = [], regExp = [], icon_text = [],
      sound = None, impix = Some 7, anim = Some ([7, 8], False), activatedCount = 1\<rparr>) \<and>
      sint (activatedCount \<lparr>count = 1, name = [], regExp = [], icon_text = [],
      sound = None, impix = Some 7, anim = Some ([7, 8], False), activatedCount = (1::32 word)\<rparr>) - 1 \<le> 0"
    by simp
  from inst run le obtain h'' P' where
    "Icon_stop example_ext 1 h' = Inr h''" "icon_priv h'' 1 = Inr (0, P')" "activatedCount P' = 0"
    "anim P' = map_option (\<lambda>a. restart example_ext (pause example_ext a)) (Some ([7, 8], False))"
    by (metis IconPrivate.select_convs(7))
  then have "\<exists>h'' P'. Icon_stop example_ext 1 h' = Inr h'' \<and> icon_priv h'' 1 = Inr (0, P') \<and>
      activatedCount P' = 0 \<and> anim P' = Some ([7, 8], True)"
    by (auto simp: example_ext_def)
  with c0 run c1 v show ?thesis by (simp del: One_nat_def)
qed

subsection \<open>The registry\<close>

lemma entries_register:
  "entries (registerIconset i f) = (if i \<in> set (entries f) then entries f else entries f @ [i])"
  by (simp add: registerIconset_def entries_def Let_def split: option.splits)

lemma entries_unregister: "entries (unregisterIconset i f) = removeAll i (entries f)"
  by (auto simp: unregisterIconset_def entries_def Let_def split: option.splits)

lemma register_idem: "registerIconset i (registerIconset i f) = registerIconset i f"
  by (simp add: registerIconset_def Let_def split: option.splits)

lemma factory_step_distinct: "distinct (entries f) \<Longrightarrow> distinct (entries (factory_step c f))"
  by (cases c) (simp_all add: entries_register entries_unregister distinct_removeAll)

lemma factory_after_snoc: "factory_after (cs @ [c]) = factory_step c (factory_after cs)"
  by (simp add: factory_after_def)

lemma factory_after_distinct: "distinct (entries (factory_after cs))"
proof (induction cs rule: rev_induct)
  case Nil
  show ?case by (simp add: factory_after_def factory_init_def entries_def)
next
  case (snoc c cs)
  then show ?case by (simp add: factory_after_snoc factory_step_distinct)
qed

lemma removeAll_distinct_length: "distinct l \<Longrightarrow> length l \<le> Suc (length (removeAll x l))"
  by (induction l) auto

text \<open>
  C10. Registration in the factory is idempotent and the registry holds no duplicates.
  In every registry reached from the initial one by calls of \<^verbatim>\<open>registerIconset\<close> and
  \<^verbatim>\<open>unregisterIconset\<close> the entries are pairwise different; \<^verbatim>\<open>registerIconset\<close>
  appends the iconset if it is not in the list and leaves the list alone if it is, so a
  second \<^verbatim>\<open>addToFactory()\<close> on the same iconset changes nothing; and
  \<^verbatim>\<open>unregisterIconset\<close> keeps every other entry in place and shortens the list by at
  most one.
\<close>

theorem registry_idempotent_no_duplicates:
  "distinct (entries (factory_after cs)) \<and>
   entries (registerIconset i (factory_after cs)) =
     (if i \<in> set (entries (factory_after cs)) then entries (factory_after cs)
      else entries (factory_after cs) @ [i]) \<and>
   registerIconset i (registerIconset i (factory_after cs)) = registerIconset i (factory_after cs) \<and>
   Iconset_addToFactory this (Iconset_addToFactory this (factory_after cs)) =
     Iconset_addToFactory this (factory_after cs) \<and>
   entries (unregisterIconset i (factory_after cs)) =
     removeAll i (entries (factory_after cs)) \<and>
   length (entries (factory_after cs)) \<le> Suc (length (entries (unregisterIconset i (factory_after cs))))"
  using removeAll_distinct_length[OF factory_after_distinct, of cs i]
  by (simp add: factory_after_distinct entries_register register_idem Iconset_addToFactory_def
        entries_unregister)


subsection \<open>Detaching and setting the animation\<close>



lemma live_iconI:
  "icons h this = Some d \<Longrightarrow> privs h d = Some P \<Longrightarrow> this < next_addr h \<Longrightarrow> d < next_addr h \<Longrightarrow>
     live_icon h this"
  by (auto simp: live_icon_def)










subsection \<open>The meta element\<close>


lemma tagged_snoc:
  "filter (\<lambda>e. isElement e \<and> tagName e = tag) (cs @ [c]) =
     filter (\<lambda>e. isElement e \<and> tagName e = tag) cs @ (if isElement c \<and> tagName c = tag then [c] else [])"
  by simp

lemma foldl_loadMeta_fields:
  "sname (foldl (loadMeta_node F) P cs) =
     (case rev (filter (\<lambda>e. isElement e \<and> tagName e = ''name'') cs) of [] \<Rightarrow> sname P | e # es \<Rightarrow> text_of e) \<and>
   version (foldl (loadMeta_node F) P cs) =
     (case rev (filter (\<lambda>e. isElement e \<and> tagName e = ''version'') cs) of [] \<Rightarrow> version P | e # es \<Rightarrow> text_of e) \<and>
   description (foldl (loadMeta_node F) P cs) =
     (case rev (filter (\<lambda>e. isElement e \<and> tagName e = ''description'') cs) of [] \<Rightarrow> description P | e # es \<Rightarrow> text_of e) \<and>
   creation (foldl (loadMeta_node F) P cs) =
     (case rev (filter (\<lambda>e. isElement e \<and> tagName e = ''creation'') cs) of [] \<Rightarrow> creation P | e # es \<Rightarrow> text_of e) \<and>
   homeUrl (foldl (loadMeta_node F) P cs) =
     (case rev (filter (\<lambda>e. isElement e \<and> tagName e = ''home'') cs) of [] \<Rightarrow> homeUrl P | e # es \<Rightarrow> text_of e) \<and>
   authors (foldl (loadMeta_node F) P cs) =
     authors P @ map (author_entry F) (filter (\<lambda>e. isElement e \<and> tagName e = ''author'') cs)"
proof (induction cs rule: rev_induct)
  case Nil
  show ?case by simp
next
  case (snoc c cs)
  then show ?case
    by (simp add: loadMeta_node_def)
qed

lemma loadMeta_fields:
  "sname (loadMeta F i P) = meta_value ''name'' i (sname P)"
  "version (loadMeta F i P) = meta_value ''version'' i (version P)"
  "description (loadMeta F i P) = meta_value ''description'' i (description P)"
  "creation (loadMeta F i P) = meta_value ''creation'' i (creation P)"
  "homeUrl (loadMeta F i P) = meta_value ''home'' i (homeUrl P)"
  "authors (loadMeta F i P) = authors P @ map (author_entry F) (tagged ''author'' i)"
  using foldl_loadMeta_fields[of F P "childNodes i"]
  by (simp_all add: loadMeta_def meta_value_def tagged_def)

lemma iconset_priv_Inr:
  "iconset_priv s i = Inr (d, P) \<longleftrightarrow> isets s i = Some d \<and> sprivs s d = Some P"
  by (auto simp: iconset_priv_def iconset_d_def spriv_at_def bindE_def split: option.splits)

text \<open>
  C6. Parsing the \<^verbatim>\<open>meta\<close> element sets name, version, description, creation date and
  home URL of the iconset from the child elements tagged \<^verbatim>\<open>name\<close>, \<^verbatim>\<open>version\<close>,
  \<^verbatim>\<open>description\<close>, \<^verbatim>\<open>creation\<close> and \<^verbatim>\<open>home\<close> (the last one of each tag; the value
  stays when there is none) and appends one entry to the authors for each child element
  tagged \<^verbatim>\<open>author\<close>. An iconset whose Private went through \<^verbatim>\<open>loadMeta\<close> returns these
  values from \<^verbatim>\<open>name()\<close>, \<^verbatim>\<open>version()\<close>, \<^verbatim>\<open>description()\<close>, \<^verbatim>\<open>creation()\<close>,
  \<^verbatim>\<open>homeUrl()\<close> and \<^verbatim>\<open>authors()\<close>.
\<close>

theorem loadMeta_sets_information:
  "iconset_priv s this = Inr (d, loadMeta F i P) \<Longrightarrow>
     Iconset_name this s = Inr (meta_value ''name'' i (sname P)) \<and>
     Iconset_version this s = Inr (meta_value ''version'' i (version P)) \<and>
     Iconset_description this s = Inr (meta_value ''description'' i (description P)) \<and>
     Iconset_creation this s = Inr (meta_value ''creation'' i (creation P)) \<and>
     Iconset_homeUrl this s = Inr (meta_value ''home'' i (homeUrl P)) \<and>
     Iconset_authors this s = Inr (authors P @ map (author_entry F) (tagged ''author'' i)) \<and>
     length (authors (loadMeta F i P)) = length (authors P) + length (tagged ''author'' i)"
  by (simp add: Iconset_name_def Iconset_version_def Iconset_description_def
        Iconset_creation_def Iconset_homeUrl_def Iconset_authors_def bindE_def loadMeta_fields)

theorem loadMeta_sets_information_witness:
  "iconset_priv example_meta_state 1 =
     Inr (0, loadMeta example_arg example_meta SPrivate_init) \<and>
   Iconset_name 1 example_meta_state = Inr ''Stellar 2'' \<and>
   Iconset_authors 1 example_meta_state =
     Inr [''Alice<br>&nbsp;&nbsp;Email: <a href='mailto:%1'>%2</a>|a@b.c|a@b.c'', ''Bob'']"
proof -
  have p: "iconset_priv example_meta_state 1 =
             Inr (0, loadMeta example_arg example_meta SPrivate_init)"
    by (simp add: iconset_priv_Inr example_meta_state_def)
  have v: "meta_value ''name'' example_meta (sname SPrivate_init) = ''Stellar 2''"
    "authors SPrivate_init @ map (author_entry example_arg) (tagged ''author'' example_meta) =
       [''Alice<br>&nbsp;&nbsp;Email: <a href='mailto:%1'>%2</a>|a@b.c|a@b.c'', ''Bob'']"
    by (simp_all add: meta_value_def tagged_def example_meta_def SPrivate_init_def
          author_entry_def example_arg_def)
  from loadMeta_sets_information[OF p] p v show ?thesis by simp
qed

subsection \<open>Reference counts in the store of icons\<close>







lemma wf_live: "wf_heap h \<Longrightarrow> icons h i = Some q \<Longrightarrow> live_icon h i"
  by (auto simp: wf_heap_def live_icon_def)

lemma refs_upd_fresh:
  "icons h i = None \<Longrightarrow> refs (h\<lparr>icons := (icons h)(i \<mapsto> q)\<rparr>) q' = (if q' = q then insert i (refs h q) else refs h q')"
  by (auto simp: refs_def)

lemma refs_del:
  "refs (h\<lparr>icons := (icons h)(i := None)\<rparr>) q' = refs h q' - {i}"
  by (auto simp: refs_def)

lemma refs_privs_upd [simp]: "refs (h\<lparr>privs := x\<rparr>) q = refs h q"
  by (simp add: refs_def)

lemma refs_next_upd [simp]: "refs (h\<lparr>next_addr := x\<rparr>) q = refs h q"
  by (simp add: refs_def)

lemma wf_Private_new:
  assumes "wf_heap h" "Private_new h = (p, h')"
  shows "p = next_addr h" "icons h' = icons h" "next_addr h' = Suc (next_addr h)"
    "privs h' = (privs h)(p \<mapsto> \<lparr>count = 1, name = [], regExp = [], icon_text = [], sound = None,
                impix = None, anim = None, activatedCount = 0\<rparr>)"
  using assms by (auto simp: Private_new_def Let_def)




subsection \<open>The hash and the list of an iconset\<close>


lemma bindE_Inr: "bindE m f = Inr y \<longleftrightarrow> (\<exists>x. m = Inr x \<and> f x = Inr y)"
  by (cases m) (auto simp: bindE_def)

lemma bindE_left: "bindE (Inr x) f = f x"
  by (simp add: bindE_def)



lemma spriv_at_Inr: "spriv_at s d = Inr P \<longleftrightarrow> sprivs s d = Some P"
  by (auto simp: spriv_at_def split: option.splits)

lemma iconset_d_Inr: "iconset_d s i = Inr d \<longleftrightarrow> isets s i = Some d"
  by (auto simp: iconset_d_def split: option.splits)

lemma Icon_dtor_next: "Icon_dtor i h = Inr h' \<Longrightarrow> next_addr h' = next_addr h"
  by (auto simp: Icon_dtor_def release_def bindE_Inr split: if_splits)

lemma Icon_copy_ctor_next: "Icon_copy_ctor i h = Inr (j, h') \<Longrightarrow> j = next_addr h \<and> next_addr h' = Suc (next_addr h)"
  by (auto simp: Icon_copy_ctor_def bindE_Inr Let_def)

lemma delete_icon_effect:
  "delete_icon i s = Inr s' \<Longrightarrow>
     sprivs s' = sprivs s \<and> isets s' = isets s \<and> fac s' = fac s \<and> next_addr (ih s') = next_addr (ih s)"
  by (cases i) (auto simp: delete_icon_def on_icons_def bindE_Inr Icon_dtor_next)

lemma remove_effect0:
  assumes "SPrivate_remove d k s = Inr s'"
  shows "\<exists>P. sprivs s d = Some P \<and>
     sprivs s' = (sprivs s)(d \<mapsto> P\<lparr>dict := (dict P)(k := None),
        icon_list := (case dict P k of Some (Some a) \<Rightarrow> removeAll a (icon_list P) | _ \<Rightarrow> icon_list P)\<rparr>) \<and>
     isets s' = isets s \<and> fac s' = fac s \<and> next_addr (ih s') = next_addr (ih s)"
proof -
  from assms obtain P where P: "sprivs s d = Some P" 
    by (auto simp: SPrivate_remove_def bindE_Inr spriv_at_Inr)
  show ?thesis
  proof (cases "dict P k")
    case None
    with assms P have "s' = s" by (simp add: SPrivate_remove_def bindE_def spriv_at_def)
    moreover have "(dict P)(k := None) = dict P"
      using None by (simp add: fun_upd_idem)
    then have "P\<lparr>dict := (dict P)(k := None), icon_list := icon_list P\<rparr> = P"
      by simp
    ultimately show ?thesis using P None by (simp add: fun_upd_idem)
  next
    case (Some i)
    with assms P show ?thesis
      by (cases i) (auto simp: SPrivate_remove_def bindE_def spriv_at_def dest!: delete_icon_effect)
  qed
qed

lemma consistent_mono: "consistent n P \<Longrightarrow> n \<le> m \<Longrightarrow> consistent m P"
  by (fastforce simp: consistent_def)

lemma consistent_remove0:
  assumes c: "consistent n P"
  shows "consistent n (P\<lparr>dict := (dict P)(k := None),
        icon_list := (case dict P k of Some (Some a) \<Rightarrow> removeAll a (icon_list P) | _ \<Rightarrow> icon_list P)\<rparr>)"
proof -
  from c have dist: "distinct (icon_list P)"
    and bnd: "\<And>i. i \<in> set (icon_list P) \<Longrightarrow> i < n"
    and ii: "\<And>k' i. dict P k' = Some (Some i) \<Longrightarrow> i \<in> set (icon_list P)"
    and iii: "\<And>i. i \<in> set (icon_list P) \<Longrightarrow> \<exists>k'. dict P k' = Some (Some i)"
    and inj: "\<And>k' k'' i. dict P k' = Some (Some i) \<Longrightarrow> dict P k'' = Some (Some i) \<Longrightarrow> k' = k''"
    unfolding consistent_def by blast+
  show ?thesis
  proof (cases "\<exists>a. dict P k = Some (Some a)")
    case True
    then obtain a where k: "dict P k = Some (Some a)" by blast
    have l: "(case dict P k of Some (Some a) \<Rightarrow> removeAll a (icon_list P) | _ \<Rightarrow> icon_list P) =
               removeAll a (icon_list P)"
      using k by simp
    show ?thesis unfolding consistent_def l
    proof (intro conjI allI impI ballI)
      show "distinct (icon_list (P\<lparr>dict := (dict P)(k := None), icon_list := removeAll a (icon_list P)\<rparr>))"
        using dist by (simp add: distinct_removeAll)
    next
      fix i assume "i \<in> set (icon_list (P\<lparr>dict := (dict P)(k := None), icon_list := removeAll a (icon_list P)\<rparr>))"
      then show "i < n" using bnd by simp
    next
      fix k' i assume "dict (P\<lparr>dict := (dict P)(k := None), icon_list := removeAll a (icon_list P)\<rparr>) k' = Some (Some i)"
      then have d: "k' \<noteq> k" "dict P k' = Some (Some i)" by (auto split: if_splits)
      then have "i \<noteq> a" using inj[of k' i k] k by auto
      with ii[OF d(2)]
      show "i \<in> set (icon_list (P\<lparr>dict := (dict P)(k := None), icon_list := removeAll a (icon_list P)\<rparr>))"
        by simp
    next
      fix i assume "i \<in> set (icon_list (P\<lparr>dict := (dict P)(k := None), icon_list := removeAll a (icon_list P)\<rparr>))"
      then have i: "i \<in> set (icon_list P)" "i \<noteq> a" by auto
      from iii[OF i(1)] obtain k' where k': "dict P k' = Some (Some i)" by blast
      with k i(2) have "k' \<noteq> k" by auto
      with k' show "\<exists>k'. dict (P\<lparr>dict := (dict P)(k := None), icon_list := removeAll a (icon_list P)\<rparr>) k' = Some (Some i)"
        by auto
    next
      fix k' k'' i
      assume "dict (P\<lparr>dict := (dict P)(k := None), icon_list := removeAll a (icon_list P)\<rparr>) k' = Some (Some i) \<and>
              dict (P\<lparr>dict := (dict P)(k := None), icon_list := removeAll a (icon_list P)\<rparr>) k'' = Some (Some i)"
      then have "dict P k' = Some (Some i)" "dict P k'' = Some (Some i)" by (auto split: if_splits)
      then show "k' = k''" by (rule inj)
    qed
  next
    case False
    then have l: "(case dict P k of Some (Some a) \<Rightarrow> removeAll a (icon_list P) | _ \<Rightarrow> icon_list P) =
               icon_list P"
      by (auto split: option.splits)
    show ?thesis unfolding consistent_def l
    proof (intro conjI allI impI ballI)
      show "distinct (icon_list (P\<lparr>dict := (dict P)(k := None), icon_list := icon_list P\<rparr>))"
        using dist by simp
    next
      fix i assume "i \<in> set (icon_list (P\<lparr>dict := (dict P)(k := None), icon_list := icon_list P\<rparr>))"
      then show "i < n" using bnd by simp
    next
      fix k' i assume "dict (P\<lparr>dict := (dict P)(k := None), icon_list := icon_list P\<rparr>) k' = Some (Some i)"
      then have d: "dict P k' = Some (Some i)" by (auto split: if_splits)
      with ii[OF d]
      show "i \<in> set (icon_list (P\<lparr>dict := (dict P)(k := None), icon_list := icon_list P\<rparr>))"
        by simp
    next
      fix i assume "i \<in> set (icon_list (P\<lparr>dict := (dict P)(k := None), icon_list := icon_list P\<rparr>))"
      then have i: "i \<in> set (icon_list P)" by auto
      from iii[OF i(1)] obtain k' where k': "dict P k' = Some (Some i)" by blast
      with False have "k' \<noteq> k" by auto
      with k' show "\<exists>k'. dict (P\<lparr>dict := (dict P)(k := None), icon_list := icon_list P\<rparr>) k' = Some (Some i)"
        by auto
    next
      fix k' k'' i
      assume "dict (P\<lparr>dict := (dict P)(k := None), icon_list := icon_list P\<rparr>) k' = Some (Some i) \<and>
              dict (P\<lparr>dict := (dict P)(k := None), icon_list := icon_list P\<rparr>) k'' = Some (Some i)"
      then have "dict P k' = Some (Some i)" "dict P k'' = Some (Some i)" by (auto split: if_splits)
      then show "k' = k''" by (rule inj)
    qed
  qed
qed

lemma remove_effect:
  assumes "SPrivate_remove d k s = Inr s'"
  shows "\<exists>P. sprivs s d = Some P \<and> sprivs s' = (sprivs s)(d \<mapsto> removed k P) \<and>
     isets s' = isets s \<and> fac s' = fac s \<and> next_addr (ih s') = next_addr (ih s)"
  unfolding removed_def by (rule remove_effect0[OF assms])

lemma consistent_remove: "consistent n P \<Longrightarrow> consistent n (removed k P)"
  unfolding removed_def by (rule consistent_remove0)


lemma consistent_scount [simp]: "consistent n (P\<lparr>scount := c\<rparr>) = consistent n P"
  by (simp add: consistent_def)

lemma cons_below_mono: "cons_below n s \<Longrightarrow> n \<le> m \<Longrightarrow> cons_below m s"
  unfolding cons_below_def using consistent_mono by blast

lemma cons_below_ih [simp]: "cons_below n (s\<lparr>ih := h\<rparr>) = cons_below n s"
  by (simp add: cons_below_def)

lemma cons_below_upd:
  "cons_below n s \<Longrightarrow> sprivs s' = (sprivs s)(d \<mapsto> P') \<Longrightarrow> consistent n P' \<Longrightarrow> cons_below n s'"
  by (auto simp: cons_below_def)

lemma cons_below_del:
  "cons_below n s \<Longrightarrow> sprivs s' = (sprivs s)(d := None) \<Longrightarrow> cons_below n s'"
  by (auto simp: cons_below_def split: if_splits)

lemma cons_below_same:
  "cons_below n s \<Longrightarrow> sprivs s' = sprivs s \<Longrightarrow> cons_below n s'"
  by (auto simp: cons_below_def)

lemma cons_belowD: "cons_below n s \<Longrightarrow> sprivs s d = Some P \<Longrightarrow> consistent n P"
  by (auto simp: cons_below_def)

lemma remove_cons:
  assumes "cons_below n s" "SPrivate_remove d k s = Inr s'"
  shows "cons_below n s'"
proof -
  from remove_effect[OF assms(2)] obtain P where P: "sprivs s d = Some P"
    "sprivs s' = (sprivs s)(d \<mapsto> removed k P)" by blast
  from cons_belowD[OF assms(1) P(1)] have "consistent n (removed k P)" by (rule consistent_remove)
  from cons_below_upd[OF assms(1) P(2) this] show ?thesis .
qed

lemma removed_absent: "dict P k = None \<Longrightarrow> removed k P = P"
  by (simp add: removed_def fun_upd_idem)

lemma dict_removed [simp]: "dict (removed k P) k = None"
  by (simp add: removed_def)

lemma append_effect:
  assumes "SPrivate_append d k icon s = Inr s'"
  shows "\<exists>P. sprivs s d = Some P \<and> sprivs s' = (sprivs s)(d \<mapsto> appended k icon P) \<and>
     isets s' = isets s \<and> fac s' = fac s \<and> next_addr (ih s') = next_addr (ih s)"
proof -
  from assms obtain P where P: "sprivs s d = Some P"
    by (auto simp: SPrivate_append_def bindE_Inr spriv_at_Inr)
  show ?thesis
  proof (cases "dict P k")
    case None
    with assms P show ?thesis
      by (auto simp: SPrivate_append_def bindE_def spriv_at_def appended_def removed_absent)
  next
    case (Some i)
    with assms P obtain s1 where r: "SPrivate_remove d k s = Inr s1"
      and a: "bindE (spriv_at s1 d) (\<lambda>P1.
       Inr (s1\<lparr>sprivs := (sprivs s1)(d \<mapsto>
              P1\<lparr>dict := (dict P1)(k \<mapsto> Some icon), icon_list := icon_list P1 @ [icon]\<rparr>)\<rparr>)) = Inr s'"
      by (auto simp: SPrivate_append_def bindE_Inr spriv_at_Inr)
    from remove_effect[OF r] P have e: "sprivs s1 = (sprivs s)(d \<mapsto> removed k P)"
      "isets s1 = isets s" "fac s1 = fac s" "next_addr (ih s1) = next_addr (ih s)" by auto
    from a e P show ?thesis
      by (auto simp: bindE_def spriv_at_def appended_def)
  qed
qed

lemma consistent_append:
  assumes c: "consistent n P" and le: "n \<le> icon"
  shows "consistent (Suc icon) (appended k icon P)"
proof -
  let ?R = "removed k P"
  have R: "consistent n ?R" by (rule consistent_remove[OF c])
  then have dist: "distinct (icon_list ?R)"
    and bnd: "\<And>i. i \<in> set (icon_list ?R) \<Longrightarrow> i < n"
    and ii: "\<And>k' i. dict ?R k' = Some (Some i) \<Longrightarrow> i \<in> set (icon_list ?R)"
    and iii: "\<And>i. i \<in> set (icon_list ?R) \<Longrightarrow> \<exists>k'. dict ?R k' = Some (Some i)"
    and inj: "\<And>k' k'' i. dict ?R k' = Some (Some i) \<Longrightarrow> dict ?R k'' = Some (Some i) \<Longrightarrow> k' = k''"
    unfolding consistent_def by blast+
  have fresh: "icon \<notin> set (icon_list ?R)" using bnd[of icon] le by auto
  have nk: "dict ?R k = None" by simp
  show ?thesis unfolding consistent_def appended_def
  proof (intro conjI allI impI ballI)
    show "distinct (icon_list (?R\<lparr>dict := (dict ?R)(k \<mapsto> Some icon), icon_list := icon_list ?R @ [icon]\<rparr>))"
      using dist fresh by simp
  next
    fix i assume "i \<in> set (icon_list (?R\<lparr>dict := (dict ?R)(k \<mapsto> Some icon), icon_list := icon_list ?R @ [icon]\<rparr>))"
    then show "i < Suc icon" using bnd le by fastforce
  next
    fix k' i assume "dict (?R\<lparr>dict := (dict ?R)(k \<mapsto> Some icon), icon_list := icon_list ?R @ [icon]\<rparr>) k' = Some (Some i)"
    then have "(k' = k \<and> i = icon) \<or> dict ?R k' = Some (Some i)" by (auto split: if_splits)
    then show "i \<in> set (icon_list (?R\<lparr>dict := (dict ?R)(k \<mapsto> Some icon), icon_list := icon_list ?R @ [icon]\<rparr>))"
      using ii by auto
  next
    fix i assume "i \<in> set (icon_list (?R\<lparr>dict := (dict ?R)(k \<mapsto> Some icon), icon_list := icon_list ?R @ [icon]\<rparr>))"
    then have "i = icon \<or> i \<in> set (icon_list ?R)" by auto
    then show "\<exists>k'. dict (?R\<lparr>dict := (dict ?R)(k \<mapsto> Some icon), icon_list := icon_list ?R @ [icon]\<rparr>) k' = Some (Some i)"
    proof
      assume "i = icon" then show ?thesis by auto
    next
      assume "i \<in> set (icon_list ?R)"
      from iii[OF this] obtain k' where k': "dict ?R k' = Some (Some i)" by blast
      with nk have "k' \<noteq> k" by auto
      with k' show ?thesis by auto
    qed
  next
    fix k' k'' i
    assume a: "dict (?R\<lparr>dict := (dict ?R)(k \<mapsto> Some icon), icon_list := icon_list ?R @ [icon]\<rparr>) k' = Some (Some i) \<and>
            dict (?R\<lparr>dict := (dict ?R)(k \<mapsto> Some icon), icon_list := icon_list ?R @ [icon]\<rparr>) k'' = Some (Some i)"
    show "k' = k''"
    proof (cases "i = icon")
      case True
      have "dict ?R x \<noteq> Some (Some icon)" for x using ii[of x icon] fresh by auto
      with a True show ?thesis by (auto split: if_splits)
    next
      case False
      with a have "dict ?R k' = Some (Some i)" "dict ?R k'' = Some (Some i)" by (auto split: if_splits)
      then show ?thesis by (rule inj)
    qed
  qed
qed

lemma append_cons:
  assumes "cons_below n s" "n \<le> icon" "SPrivate_append d k icon s = Inr s'"
  shows "cons_below (Suc icon) s'"
proof -
  from append_effect[OF assms(3)] obtain P where P: "sprivs s d = Some P"
    "sprivs s' = (sprivs s)(d \<mapsto> appended k icon P)" by blast
  have "consistent (Suc icon) (appended k icon P)"
    by (rule consistent_append[OF cons_belowD[OF assms(1) P(1)] assms(2)])
  moreover have "cons_below (Suc icon) s" by (rule cons_below_mono[OF assms(1)]) (use assms(2) in simp)
  ultimately show ?thesis using cons_below_upd P(2) by blast
qed

lemma copy_icons_consistent:
  "all_consistent s \<Longrightarrow> copy_icons d l s = Inr s' \<Longrightarrow> all_consistent s'"
proof (induction l arbitrary: s)
  case Nil
  then show ?case by simp
next
  case (Cons i rest)
  from Cons.prems(2) obtain icon h1 n s2 where
    c: "Icon_copy_ctor i (ih s) = Inr (icon, h1)" and
    n: "Icon_name icon h1 = Inr n" and
    a: "SPrivate_append d n icon (s\<lparr>ih := h1\<rparr>) = Inr s2" and
    r: "copy_icons d rest s2 = Inr s'"
    by (auto simp: bindE_Inr)
  from Icon_copy_ctor_next[OF c] have ic: "icon = next_addr (ih s)" "next_addr h1 = Suc icon" by auto
  from Cons.prems(1) ic have "cons_below icon (s\<lparr>ih := h1\<rparr>)" by (simp add: all_consistent_def)
  from append_cons[OF this _ a] have "cons_below (Suc icon) s2" by simp
  moreover from append_effect[OF a] ic have "next_addr (ih s2) = Suc icon" by auto
  ultimately have "all_consistent s2" by (simp add: all_consistent_def)
  from Cons.IH[OF this r] show ?case .
qed


lemma delete_icons_next: "delete_icons l h = Inr h' \<Longrightarrow> next_addr h' = next_addr h"
proof (induction l arbitrary: h)
  case Nil
  then show ?case by simp
next
  case (Cons i l)
  then show ?case by (auto simp: bindE_Inr dest!: Icon_dtor_next)
qed

lemma clear_effect:
  assumes "SPrivate_clear d s = Inr s'"
  shows "\<exists>P. sprivs s d = Some P \<and>
     sprivs s' = (sprivs s)(d \<mapsto> P\<lparr>dict := Map.empty, icon_list := []\<rparr>) \<and>
     isets s' = isets s \<and> fac s' = fac s \<and> next_addr (ih s') = next_addr (ih s)"
  using assms
  by (auto simp: SPrivate_clear_def bindE_Inr spriv_at_Inr on_icons_def dest!: delete_icons_next)

lemma delete_effect:
  assumes "SPrivate_delete d s = Inr s'"
  shows "sprivs s' = (sprivs s)(d := None) \<and>
     isets s' = isets s \<and> fac s' = fac s \<and> next_addr (ih s') = next_addr (ih s)"
  using assms
  by (auto simp: SPrivate_delete_def bindE_Inr dest!: clear_effect)

lemma consistent_empty: "consistent n (P\<lparr>dict := Map.empty, icon_list := []\<rparr>)"
  by (simp add: consistent_def)

lemma consistent_init: "consistent n (SPrivate_setInformation from SPrivate_init)" "consistent n SPrivate_init"
  by (simp_all add: consistent_def SPrivate_init_def SPrivate_setInformation_def)

lemma all_consistent_step:
  assumes "all_consistent s" "next_addr (ih s) \<le> next_addr (ih s')"
    "\<And>d P'. sprivs s' d = Some P' \<Longrightarrow>
        (\<exists>P. sprivs s d = Some P \<and> (consistent (next_addr (ih s)) P \<longrightarrow> consistent (next_addr (ih s)) P')) \<or> consistent (next_addr (ih s')) P'"
  shows "all_consistent s'"
  unfolding all_consistent_def cons_below_def
proof (intro allI impI)
  fix d P' assume a: "sprivs s' d = Some P'"
  from assms(3)[OF a] show "consistent (next_addr (ih s')) P'"
  proof
    assume "\<exists>P. sprivs s d = Some P \<and> (consistent (next_addr (ih s)) P \<longrightarrow> consistent (next_addr (ih s)) P')"
    then have "consistent (next_addr (ih s)) P'"
      using assms(1) unfolding all_consistent_def cons_below_def by blast
    then show ?thesis using assms(2) by (rule consistent_mono)
  qed
qed

lemma clear_consistent: "all_consistent s \<Longrightarrow> SPrivate_clear d s = Inr s' \<Longrightarrow> all_consistent s'"
  apply (drule clear_effect)
  apply (erule all_consistent_step)
   apply (auto simp: consistent_empty split: if_splits)
  done

lemma delete_consistent: "all_consistent s \<Longrightarrow> SPrivate_delete d s = Inr s' \<Longrightarrow> all_consistent s'"
  apply (drule delete_effect)
  apply (erule all_consistent_step)
   apply (auto split: if_splits)
  done

lemma remove_consistent: "all_consistent s \<Longrightarrow> SPrivate_remove d k s = Inr s' \<Longrightarrow> all_consistent s'"
  using remove_cons[of "next_addr (ih s)" s d k s'] remove_effect[of d k s s']
  by (auto simp: all_consistent_def)

lemma srelease_consistent: "all_consistent s \<Longrightarrow> srelease d s = Inr s' \<Longrightarrow> all_consistent s'"
  unfolding srelease_def
  apply (auto simp: bindE_Inr spriv_at_Inr delete_consistent split: if_splits)
  apply (erule all_consistent_step)
   apply (auto simp: split: if_splits)
  done

lemma Iconset_new_consistent: "all_consistent s \<Longrightarrow> Iconset_new s = (i, s') \<Longrightarrow> all_consistent s'"
  apply (erule all_consistent_step)
  apply (auto simp: Iconset_new_def new_addr_def Let_def consistent_init split: if_splits)
  done

lemma Iconset_new_effect:
  "Iconset_new s = (i, s') \<Longrightarrow> isets s' i = Some (next_addr (ih s)) \<and> sprivs s' (next_addr (ih s)) = Some SPrivate_init"
  by (auto simp: Iconset_new_def new_addr_def Let_def)

lemma SPrivate_copy_consistent:
  assumes "all_consistent s" "SPrivate_copy from s = Inr (d, s')"
  shows "all_consistent s'"
proof -
  let ?s2 = "(snd (new_addr s))\<lparr>sprivs := (sprivs (snd (new_addr s)))(fst (new_addr s) \<mapsto> SPrivate_setInformation from SPrivate_init)\<rparr>"
  from assms(2) have c: "copy_icons d (icon_list from) ?s2 = Inr s'"
    by (auto simp: SPrivate_copy_def Let_def bindE_Inr split: prod.splits)
  have "all_consistent ?s2"
    apply (rule all_consistent_step[OF assms(1)])
     apply (auto simp: new_addr_def consistent_init split: if_splits)
    done
  from copy_icons_consistent[OF this c] show ?thesis .
qed

lemma Iconset_copy_consistent:
  assumes "all_consistent s" "Iconset_copy this s = Inr (i, s')"
  shows "all_consistent s'"
proof -
  obtain i0 s1 where n: "Iconset_new s = (i0, s1)" by (cases "Iconset_new s")
  with assms(2) obtain d0 s2 P q s3 where
    "SPrivate_delete d0 s1 = Inr s2" "SPrivate_copy P s2 = Inr (q, s3)"
    "s' = s3\<lparr>isets := (isets s3)(i \<mapsto> q)\<rparr>"
    by (auto simp: Iconset_copy_def bindE_Inr)
  with Iconset_new_consistent[OF assms(1) n] have "all_consistent s3" 
    using delete_consistent SPrivate_copy_consistent by blast
  then show ?thesis using \<open>s' = s3\<lparr>isets := (isets s3)(i \<mapsto> q)\<rparr>\<close>
    by (simp add: all_consistent_def cons_below_def)
qed

lemma Iconset_assign_consistent:
  assumes "all_consistent s" "Iconset_assign this from s = Inr s'"
  shows "all_consistent s'"
proof -
  from assms(2) obtain d s1 d' P' where r: "srelease d s = Inr s1"
    and P': "sprivs s1 d' = Some P'"
    and s': "s' = s1\<lparr>isets := (isets s1)(this \<mapsto> d'),
               sprivs := (sprivs s1)(d' \<mapsto> P'\<lparr>scount := scount P' + 1\<rparr>)\<rparr>"
    by (auto simp: Iconset_assign_def bindE_Inr iconset_priv_Inr)
  from srelease_consistent[OF assms(1) r] have "all_consistent s1" .
  then show ?thesis
    apply (rule all_consistent_step)
    using P' by (auto simp: s' split: if_splits)
qed

lemma Iconset_dtor_consistent:
  assumes "all_consistent s" "Iconset_dtor this s = Inr s'"
  shows "all_consistent s'"
proof -
  from assms(2) obtain d s1 where r: "srelease d s = Inr s1"
    and s': "s' = s1\<lparr>isets := (isets s1)(this := None),
               fac := unregisterIconset (Some this) (fac s1)\<rparr>"
    by (auto simp: Iconset_dtor_def bindE_Inr)
  from srelease_consistent[OF assms(1) r] show ?thesis
    by (auto simp: s' all_consistent_def cons_below_def)
qed

lemma Iconset_detach_consistent:
  assumes "all_consistent s" "Iconset_detach this s = Inr s'"
  shows "all_consistent s'"
proof -
  from assms(2) obtain d P where "iconset_priv s this = Inr (d, P)"
    by (auto simp: Iconset_detach_def bindE_Inr)
  with assms show ?thesis
    by (auto simp: Iconset_detach_def bindE_Inr split: if_splits
          dest!: Iconset_copy_consistent[rotated] Iconset_assign_consistent[rotated]
                 Iconset_dtor_consistent[rotated])
qed




lemma setIcon_consistent:
  assumes "all_consistent s" "Iconset_setIcon this k icon s = Inr s'"
  shows "all_consistent s'"
proof -
  from assms(2) obtain s1 newIcon h2 d s3 where
    d: "Iconset_detach this s = Inr s1" and
    c: "Icon_copy_ctor icon (ih s1) = Inr (newIcon, h2)" and
    r: "SPrivate_remove d k (s1\<lparr>ih := h2\<rparr>) = Inr s3" and
    a: "SPrivate_append d k newIcon s3 = Inr s'"
    by (auto simp: Iconset_setIcon_def bindE_Inr)
  from Iconset_detach_consistent[OF assms(1) d] have 1: "all_consistent s1" .
  from Icon_copy_ctor_next[OF c] have n: "newIcon = next_addr (ih s1)" "next_addr h2 = Suc newIcon"
    by auto
  from 1 n have "cons_below newIcon (s1\<lparr>ih := h2\<rparr>)" by (simp add: all_consistent_def)
  from remove_cons[OF this r] have "cons_below newIcon s3" .
  from append_cons[OF this _ a] have "cons_below (Suc newIcon) s'" by simp
  moreover from remove_effect[OF r] append_effect[OF a] n have "next_addr (ih s') = Suc newIcon"
    by auto
  ultimately show ?thesis by (simp add: all_consistent_def)
qed

lemma removeIcon_consistent:
  "all_consistent s \<Longrightarrow> Iconset_removeIcon this k s = Inr s' \<Longrightarrow> all_consistent s'"
  by (auto simp: Iconset_removeIcon_def bindE_Inr
        dest!: Iconset_detach_consistent[rotated] remove_consistent[rotated])

lemma add_consistent:
  "all_consistent s \<Longrightarrow> Iconset_add this i s = Inr s' \<Longrightarrow> all_consistent s'"
  by (auto simp: Iconset_add_def bindE_Inr
        dest!: Iconset_detach_consistent[rotated] copy_icons_consistent[rotated])

lemma Iconset_clear_consistent:
  "all_consistent s \<Longrightarrow> Iconset_clear this s = Inr s' \<Longrightarrow> all_consistent s'"
  by (auto simp: Iconset_clear_def bindE_Inr
        dest!: Iconset_detach_consistent[rotated] clear_consistent[rotated])

lemma do_iconset_call_consistent:
  "all_consistent s \<Longrightarrow> do_iconset_call c s = Inr s' \<Longrightarrow> all_consistent s'"
  by (cases c)
     (auto intro: setIcon_consistent removeIcon_consistent add_consistent Iconset_clear_consistent)

lemma run_iconset_calls_consistent:
  "all_consistent s \<Longrightarrow> run_iconset_calls cs s = Inr s' \<Longrightarrow> all_consistent s'"
proof (induction cs arbitrary: s)
  case Nil
  then show ?case by simp
next
  case (Cons c cs)
  then show ?case by (auto simp: bindE_Inr dest!: do_iconset_call_consistent[rotated])
qed

lemma consistent_same_icons:
  "consistent n P \<Longrightarrow> set (icon_list P) = {i. \<exists>k. dict P k = Some (Some i)}"
  unfolding consistent_def by blast

lemma append_replaces:
  assumes "consistent n P" "n \<le> icon" "dict P k = Some (Some old)"
  shows "old \<notin> set (icon_list (appended k icon P))"
    and "dict (appended k icon P) k = Some (Some icon)"
    and "icon \<in> set (icon_list (appended k icon P))"
proof -
  from assms have "old \<in> set (icon_list P)" "old < n" unfolding consistent_def by blast+
  with assms show "old \<notin> set (icon_list (appended k icon P))"
    by (auto simp: appended_def removed_def)
  show "dict (appended k icon P) k = Some (Some icon)" "icon \<in> set (icon_list (appended k icon P))"
    by (simp_all add: appended_def)
qed

lemma example_state_eq:
  "example_state = \<lparr>ih = \<lparr>icons = [1 \<mapsto> 0], privs = [0 \<mapsto> \<lparr>count = 1, name = [], regExp = [], icon_text = [], sound = None,
                impix = None, anim = None, activatedCount = 0\<rparr>], next_addr = 4, uninit = (\<lambda>a. 0)\<rparr>,
      isets = [3 \<mapsto> 2], sprivs = [2 \<mapsto> SPrivate_init], fac = factory_init\<rparr>"
  by (simp add: example_state_def Iconset_new_def new_addr_def empty_state_def Icon_new_def Private_new_def
      empty_heap_def Let_def numeral_eq_Suc)

lemma example_consistent: "all_consistent example_state"
  by (simp add: example_state_eq all_consistent_def cons_below_def consistent_init)

lemma example_run:
  "\<exists>s' P old. run_iconset_calls [SetIcon 3 ''a'' 1, SetIcon 3 ''a'' 1, Add 3 3] example_state = Inr s' \<and>
      iconset_priv s' 3 = Inr (2, P) \<and> dict P ''a'' = Some (Some old)"
  by (simp add: example_state_eq Iconset_setIcon_def Iconset_detach_def iconset_priv_def
      iconset_d_def spriv_at_def bindE_def SPrivate_init_def Icon_copy_ctor_def icon_priv_def
      icon_d_def priv_at_def Let_def SPrivate_remove_def SPrivate_append_def delete_icon_def
      on_icons_def Icon_dtor_def release_def Iconset_add_def Icon_name_def)

text \<open>
  The runs that the program survives keep the hash and the list consistent. Starting
  from a state in which they are consistent (as they are in every new iconset), after a
  sequence of \<^verbatim>\<open>setIcon\<close>, \<^verbatim>\<open>removeIcon\<close>, \<^verbatim>\<open>operator+=\<close> and \<^verbatim>\<open>clear\<close> calls that
  returns, in every iconset the list holds no icon twice, the icons of the list are
  exactly the icons stored in the hash, and no icon is stored under two names; a name,
  being a key of the hash, maps to at most one icon. \<^verbatim>\<open>append\<close> under a name already
  present removes the icon stored under it from the hash and the list before it stores
  the new one.
\<close>

lemma surviving_calls_consistent:
  "all_consistent s \<Longrightarrow> run_iconset_calls cs s = Inr s' \<Longrightarrow> iconset_priv s' this = Inr (d, P) \<Longrightarrow>
     all_consistent s' \<and>
     distinct (icon_list P) \<and>
     set (icon_list P) = {i. \<exists>k. dict P k = Some (Some i)} \<and>
     (\<forall>k k' i. dict P k = Some (Some i) \<and> dict P k' = Some (Some i) \<longrightarrow> k = k') \<and>
     (\<forall>k icon s2. SPrivate_append d k icon s' = Inr s2 \<longrightarrow>
        sprivs s2 d = Some (appended k icon P)) \<and>
     (\<forall>k icon old. dict P k = Some (Some old) \<and> next_addr (ih s') \<le> icon \<longrightarrow>
        old \<notin> set (icon_list (appended k icon P)) \<and>
        dict (appended k icon P) k = Some (Some icon) \<and>
        icon \<in> set (icon_list (appended k icon P)))"
proof -
  assume a: "all_consistent s" "run_iconset_calls cs s = Inr s'" "iconset_priv s' this = Inr (d, P)"
  have c': "all_consistent s'" by (rule run_iconset_calls_consistent[OF a(1,2)])
  from a(3) have P: "sprivs s' d = Some P" by (simp add: iconset_priv_Inr)
  with c' have c: "consistent (next_addr (ih s')) P"
    by (simp add: all_consistent_def cons_below_def)
  have "\<forall>k icon s2. SPrivate_append d k icon s' = Inr s2 \<longrightarrow> sprivs s2 d = Some (appended k icon P)"
    using P by (auto dest!: append_effect)
  moreover have "\<forall>k k' i. dict P k = Some (Some i) \<and> dict P k' = Some (Some i) \<longrightarrow> k = k'"
    using c unfolding consistent_def by blast
  moreover have "distinct (icon_list P)" using c unfolding consistent_def by blast
  ultimately show ?thesis
    using c' consistent_same_icons[OF c] append_replaces[OF c] by blast
qed

lemma surviving_calls_consistent_example:
  "all_consistent example_state \<and>
   (\<exists>s' P old. run_iconset_calls [SetIcon 3 ''a'' 1, SetIcon 3 ''a'' 1, Add 3 3] example_state = Inr s' \<and>
      iconset_priv s' 3 = Inr (2, P) \<and> dict P ''a'' = Some (Some old) \<and>
      distinct (icon_list P) \<and> set (icon_list P) = {i. \<exists>k. dict P k = Some (Some i)} \<and>
      old \<notin> set (icon_list (appended ''a'' (next_addr (ih s')) P)))"
proof -
  from example_run obtain s' P old where
    r: "run_iconset_calls [SetIcon 3 ''a'' 1, SetIcon 3 ''a'' 1, Add 3 3] example_state = Inr s'"
       "iconset_priv s' 3 = Inr (2, P)" "dict P ''a'' = Some (Some old)"
    by blast
  from surviving_calls_consistent[OF example_consistent r(1,2)] r example_consistent
  show ?thesis by blast
qed

lemma named_state_eq:
  "named_state = \<lparr>ih = \<lparr>icons = [1 \<mapsto> 0], privs = [0 \<mapsto> \<lparr>count = 1, name = ''b'', regExp = [],
        icon_text = [], sound = None, impix = None, anim = None, activatedCount = 0\<rparr>],
        next_addr = 4, uninit = (\<lambda>a. 0)\<rparr>,
      isets = [3 \<mapsto> 2], sprivs = [2 \<mapsto> SPrivate_init], fac = factory_init\<rparr>"
  by (simp add: named_state_def example_state_eq on_icons_def Icon_setName_def Icon_detach_def
      modify_priv_def icon_priv_def icon_d_def priv_at_def bindE_def)

lemmas iconset_eval =
  Iconset_setIcon_def Iconset_detach_def iconset_priv_def
  iconset_d_def spriv_at_def bindE_left SPrivate_init_def Icon_copy_ctor_def icon_priv_def
  icon_d_def priv_at_def Let_def SPrivate_remove_def SPrivate_append_def delete_icon_def
  on_icons_def Icon_dtor_def release_def Iconset_add_def Icon_name_def Iconset_count_def

lemma named_two_icons:
  "run_iconset_calls [SetIcon 3 ''a'' 1, SetIcon 3 ''b'' 1] named_state =
     Inr \<lparr>ih = \<lparr>icons = [1 \<mapsto> 0, 4 \<mapsto> 0, 5 \<mapsto> 0],
            privs = [0 \<mapsto> \<lparr>count = 3, name = ''b'', regExp = [],
              icon_text = [], sound = None, impix = None, anim = None, activatedCount = 0\<rparr>],
            next_addr = 6, uninit = (\<lambda>a. 0)\<rparr>,
          isets = [3 \<mapsto> 2],
          sprivs = [2 \<mapsto> SPrivate_init\<lparr>dict := [''a'' \<mapsto> Some 4, ''b'' \<mapsto> Some 5],
                      icon_list := [4, 5]\<rparr>],
          fac = factory_init\<rparr>"
  by (simp add: named_state_eq iconset_eval numeral_3_eq_3)

text \<open>
  C8, what fails. \<^verbatim>\<open>is += is\<close> on an iconset that stores, under the names \<^verbatim>\<open>a\<close> and \<^verbatim>\<open>b\<close>,
  two icons whose own name is \<^verbatim>\<open>b\<close>. The two \<^verbatim>\<open>setIcon\<close> calls return and leave two icons in
  the iconset. In \<^verbatim>\<open>operator+=\<close> the iterator walks the list of the iconset itself: the
  copy of the first icon is appended under its name \<^verbatim>\<open>b\<close>, which deletes the second icon,
  and the next step copies the deleted icon.
\<close>

theorem self_add_use_after_free:
  "(\<exists>s2. run_iconset_calls [SetIcon 3 ''a'' 1, SetIcon 3 ''b'' 1] named_state = Inr s2 \<and>
      Iconset_count 3 s2 = Inr 2 \<and> Iconset_add 3 3 s2 = Inl UseAfterFree) \<and>
   run_iconset_calls [SetIcon 3 ''a'' 1, SetIcon 3 ''b'' 1, Add 3 3] named_state =
     Inl UseAfterFree"
proof -
  let ?s2 = "\<lparr>ih = \<lparr>icons = [1 \<mapsto> 0, 4 \<mapsto> 0, 5 \<mapsto> 0],
            privs = [0 \<mapsto> \<lparr>count = 3, name = ''b'', regExp = [],
              icon_text = [], sound = None, impix = None, anim = None, activatedCount = 0\<rparr>],
            next_addr = 6, uninit = (\<lambda>a. 0)\<rparr>,
          isets = [3 \<mapsto> 2],
          sprivs = [2 \<mapsto> SPrivate_init\<lparr>dict := [''a'' \<mapsto> Some 4, ''b'' \<mapsto> Some 5],
                      icon_list := [4, 5]\<rparr>],
          fac = factory_init\<rparr> :: (nat list \<times> bool, nat) state"
  have c: "Iconset_count 3 ?s2 = Inr 2"
    by (simp add: iconset_eval)
  have a: "Iconset_add 3 3 ?s2 = Inl UseAfterFree"
    by (simp add: iconset_eval bindE_def)
  have "run_iconset_calls [SetIcon 3 ''a'' 1, SetIcon 3 ''b'' 1, Add 3 3] named_state =
      bindE (run_iconset_calls [SetIcon 3 ''a'' 1, SetIcon 3 ''b'' 1] named_state) (Iconset_add 3 3)"
    by (simp add: bindE_def split: sum.splits)
  with named_two_icons c a show ?thesis by (simp add: bindE_left)
qed

subsection \<open>Looking an icon up in the factory\<close>


lemma null_ext_refl: "null_ext s s"
  unfolding null_ext_def
  by (auto intro!: exI[where x = "dict P" for P])

lemma null_ext_trans:
  assumes "null_ext s s1" "null_ext s1 s2"
  shows "null_ext s s2"
  unfolding null_ext_def
proof (intro conjI allI impI)
  show "ih s2 = ih s" "isets s2 = isets s" "fac s2 = fac s"
    using assms by (auto simp: null_ext_def)
next
  fix d assume "sprivs s d = None"
  then show "sprivs s2 d = None" using assms unfolding null_ext_def by metis
next
  fix d P assume P: "sprivs s d = Some P"
  with assms(1) obtain D1 where D1: "sprivs s1 d = Some (P\<lparr>dict := D1\<rparr>)"
    "\<And>k. D1 k = dict P k \<or> (dict P k = None \<and> D1 k = Some None)"
    unfolding null_ext_def by blast
  with assms(2) obtain D2 where D2: "sprivs s2 d = Some (P\<lparr>dict := D1\<rparr>\<lparr>dict := D2\<rparr>)"
    "\<And>k. D2 k = dict (P\<lparr>dict := D1\<rparr>) k \<or> (dict (P\<lparr>dict := D1\<rparr>) k = None \<and> D2 k = Some None)"
    unfolding null_ext_def by blast
  have "\<forall>k. D2 k = dict P k \<or> (dict P k = None \<and> D2 k = Some None)"
  proof
    fix k from D1(2)[of k] D2(2)[of k] show "D2 k = dict P k \<or> (dict P k = None \<and> D2 k = Some None)"
      by auto
  qed
  with D2(1) show "\<exists>D. sprivs s2 d = Some (P\<lparr>dict := D\<rparr>) \<and>
                  (\<forall>k. D k = dict P k \<or> (dict P k = None \<and> D k = Some None))"
    by auto
qed

lemma null_ext_lookup: "null_ext s s' \<Longrightarrow> lookup s' a n = lookup s a n"
proof -
  assume e: "null_ext s s'"
  show ?thesis
  proof (cases "isets s a")
    case None
    with e show ?thesis by (simp add: lookup_def null_ext_def)
  next
    case (Some d)
    show ?thesis
    proof (cases "sprivs s d")
      case None
      with e have "sprivs s' d = None" unfolding null_ext_def by blast
      with None Some e show ?thesis by (simp add: lookup_def null_ext_def)
    next
      case (Some P)
      with e obtain D where D: "sprivs s' d = Some (P\<lparr>dict := D\<rparr>)"
        "\<And>k. D k = dict P k \<or> (dict P k = None \<and> D k = Some None)"
        unfolding null_ext_def by blast
      from e have "isets s' = isets s" by (simp add: null_ext_def)
      with D(1) D(2)[of n] Some \<open>isets s a = Some d\<close> show ?thesis
        by (auto simp: lookup_def)
    qed
  qed
qed

lemma null_ext_first_icon: "null_ext s s' \<Longrightarrow> first_icon s' l n = first_icon s l n"
proof (induction l)
  case Nil
  show ?case by simp
next
  case (Cons x l)
  then show ?case by (cases x) (simp_all add: null_ext_lookup split: option.splits)
qed

lemma null_ext_live: "null_ext s s' \<Longrightarrow> registry_live s \<Longrightarrow> registry_live s'"
  unfolding registry_live_def null_ext_def by (metis)

lemma Iconset_icon_spec:
  assumes "isets s a = Some d" "sprivs s d = Some P"
  shows "\<exists>s'. Iconset_icon a n s = Inr (lookup s a n, s') \<and> null_ext s s'"
proof (cases "dict P = Map.empty")
  case True
  with assms show ?thesis
    by (auto simp: Iconset_icon_def iconset_priv_def iconset_d_def spriv_at_def bindE_def
          lookup_def null_ext_refl)
next
  case False
  show ?thesis
  proof (cases "dict P n")
    case None
    let ?s' = "s\<lparr>sprivs := (sprivs s)(d \<mapsto> P\<lparr>dict := (dict P)(n \<mapsto> None)\<rparr>)\<rparr>"
    have "null_ext s ?s'"
      unfolding null_ext_def
    proof (intro conjI allI impI)
      fix d' P' assume a: "sprivs s d' = Some P'"
      show "\<exists>D. sprivs ?s' d' = Some (P'\<lparr>dict := D\<rparr>) \<and>
                  (\<forall>k. D k = dict P' k \<or> (dict P' k = None \<and> D k = Some None))"
      proof (cases "d' = d")
        case True
        with a assms None show ?thesis
          by (intro exI[where x = "(dict P)(n \<mapsto> None)"]) auto
      next
        case False
        with a show ?thesis by (intro exI[where x = "dict P'"]) auto
      qed
    qed (use assms in auto)
    with assms None False show ?thesis
      by (auto simp: Iconset_icon_def iconset_priv_def iconset_d_def spriv_at_def bindE_def
          lookup_def)
  next
    case (Some i)
    with assms False show ?thesis
      by (cases i) (auto simp: Iconset_icon_def iconset_priv_def iconset_d_def spriv_at_def bindE_def
          lookup_def null_ext_refl)
  qed
qed

lemma icon_loop_spec:
  assumes "\<forall>a. Some a \<in> set l \<longrightarrow> (\<exists>d P. isets s a = Some d \<and> sprivs s d = Some P)"
  shows "\<exists>s'. icon_loop l n s = Inr (first_icon s l n, s') \<and> null_ext s s'"
  using assms
proof (induction l arbitrary: s)
  case Nil
  then show ?case by (simp add: null_ext_refl)
next
  case (Cons x rest)
  show ?case
  proof (cases x)
    case None
    with Cons show ?thesis by simp
  next
    case (Some iconset)
    with Cons.prems obtain d P where dP: "isets s iconset = Some d" "sprivs s d = Some P" by auto
    from Iconset_icon_spec[OF dP, of n] obtain s1 where
      s1: "Iconset_icon iconset n s = Inr (lookup s iconset n, s1)" "null_ext s s1" by blast
    show ?thesis
    proof (cases "lookup s iconset n")
      case None
      have live1: "\<forall>a. Some a \<in> set rest \<longrightarrow> (\<exists>d P. isets s1 a = Some d \<and> sprivs s1 d = Some P)"
      proof (intro allI impI)
        fix a assume "Some a \<in> set rest"
        with Cons.prems obtain d' P' where "isets s a = Some d'" "sprivs s d' = Some P'" by auto
        with s1(2) show "\<exists>d P. isets s1 a = Some d \<and> sprivs s1 d = Some P"
          unfolding null_ext_def by metis
      qed
      from Cons.IH[OF live1]
      obtain s' where "icon_loop rest n s1 = Inr (first_icon s1 rest n, s')" "null_ext s1 s'"
        by auto
      with s1 None Some show ?thesis
        by (auto simp: bindE_def null_ext_first_icon intro: null_ext_trans)
    next
      case (Some i)
      with s1 \<open>x = Some iconset\<close> show ?thesis by (auto simp: bindE_def)
    qed
  qed
qed


lemma first_icon_None: "first_icon s l n = None \<longleftrightarrow> (\<forall>a. Some a \<in> set l \<longrightarrow> lookup s a n = None)"
proof (induction l)
  case Nil
  show ?case by simp
next
  case (Cons x l)
  then show ?case by (cases x) (auto split: option.splits)
qed

lemma first_icon_Some:
  "first_icon s l n = Some i \<longleftrightarrow>
     (\<exists>j < length l. \<exists>a. l ! j = Some a \<and> lookup s a n = Some i \<and>
        (\<forall>j' < j. \<forall>a'. l ! j' = Some a' \<longrightarrow> lookup s a' n = None))"
proof (induction l)
  case Nil
  show ?case by simp
next
  case (Cons x l)
  let ?R = "\<lambda>l. \<exists>j < length l. \<exists>a. l ! j = Some a \<and> lookup s a n = Some i \<and>
        (\<forall>j' < j. \<forall>a'. l ! j' = Some a' \<longrightarrow> lookup s a' n = None)"
  have skip: "?R (x # l) \<longleftrightarrow> ?R l" if "\<forall>a. x = Some a \<longrightarrow> lookup s a n = None"
  proof
    assume "?R (x # l)"
    then obtain j a where j: "j < length (x # l)" "(x # l) ! j = Some a" "lookup s a n = Some i"
      "\<forall>j' < j. \<forall>a'. (x # l) ! j' = Some a' \<longrightarrow> lookup s a' n = None" by blast
    from j(2,3) that have "j \<noteq> 0" by (cases j) auto
    then obtain j0 where j0: "j = Suc j0" by (cases j) auto
    have "\<forall>j' < j0. \<forall>a'. l ! j' = Some a' \<longrightarrow> lookup s a' n = None"
    proof (intro allI impI)
      fix j' a' assume "j' < j0" "l ! j' = Some a'"
      with j(4)[rule_format, of "Suc j'" a'] j0 show "lookup s a' n = None" by simp
    qed
    with j j0 show "?R l" by auto
  next
    assume "?R l"
    then obtain j a where j: "j < length l" "l ! j = Some a" "lookup s a n = Some i"
      "\<forall>j' < j. \<forall>a'. l ! j' = Some a' \<longrightarrow> lookup s a' n = None" by blast
    have "\<forall>j' < Suc j. \<forall>a'. (x # l) ! j' = Some a' \<longrightarrow> lookup s a' n = None"
    proof (intro allI impI)
      fix j' a' assume a: "j' < Suc j" "(x # l) ! j' = Some a'"
      show "lookup s a' n = None"
      proof (cases j')
        case 0 with a that show ?thesis by auto
      next
        case (Suc k) with a j(4) show ?thesis by auto
      qed
    qed
    with j show "?R (x # l)" by (intro exI[where x = "Suc j"]) auto
  qed
  show ?case
  proof (cases x)
    case None
    with Cons skip show ?thesis by simp
  next
    case (Some a)
    show ?thesis
    proof (cases "lookup s a n")
      case None
      with Some Cons skip show ?thesis by simp
    next
      case (Some i')
      have "?R (x # l) \<longleftrightarrow> i' = i"
      proof
        assume "?R (x # l)"
        then obtain j b where j: "j < length (x # l)" "(x # l) ! j = Some b" "lookup s b n = Some i"
          "\<forall>j' < j. \<forall>a'. (x # l) ! j' = Some a' \<longrightarrow> lookup s a' n = None" by blast
        show "i' = i"
        proof (cases j)
          case 0 with j \<open>x = Some a\<close> Some show ?thesis by auto
        next
          case (Suc k)
          with j(4)[rule_format, of 0 a] \<open>x = Some a\<close> Some show ?thesis by simp
        qed
      next
        assume "i' = i"
        with Some \<open>x = Some a\<close> show "?R (x # l)" by (intro exI[where x = 0]) auto
      qed
      with Some \<open>x = Some a\<close> show ?thesis by auto
    qed
  qed
qed

lemma iconPtr_spec:
  assumes "registry_live s"
  shows "\<exists>s'. IconsetFactory_iconPtr n s = Inr (first_icon s (entries (fac s)) n, s') \<and> null_ext s s'"
proof (cases "iconsets (fac s)")
  case None
  then show ?thesis
    by (simp add: IconsetFactory_iconPtr_def IconsetFactoryPrivate_icon_def entries_def null_ext_refl)
next
  case (Some l)
  with assms have "\<forall>a. Some a \<in> set l \<longrightarrow> (\<exists>d P. isets s a = Some d \<and> sprivs s d = Some P)"
    by (simp add: registry_live_def entries_def)
  from icon_loop_spec[OF this, of n] Some show ?thesis
    by (simp add: IconsetFactory_iconPtr_def IconsetFactoryPrivate_icon_def entries_def)
qed

lemma factory_icon_absent:
  assumes "registry_live s" "first_icon s (entries (fac s)) n = None"
  shows "\<exists>r s'' q. IconsetFactory_icon n s = Inr (r, s'') \<and> icon_priv (ih s'') r = Inr (q, empty_Private)"
proof -
  from iconPtr_spec[OF assms(1), of n] assms(2) obtain s' where
    "IconsetFactory_iconPtr n s = Inr (None, s')" by auto
  then show ?thesis
    by (simp add: IconsetFactory_icon_def bindE_def Icon_new_def Private_new_def Let_def
          icon_priv_Inr empty_Private_def)
qed

lemma factory_icon_present:
  assumes "registry_live s" "first_icon s (entries (fac s)) n = Some i"
    "icon_priv (ih s) i = Inr (q, Q)"
  shows "\<exists>r s''. IconsetFactory_icon n s = Inr (r, s'') \<and>
           icon_priv (ih s'') r = Inr (q, Q\<lparr>count := count Q + 1\<rparr>) \<and>
           icon_priv (ih s'') i = Inr (q, Q\<lparr>count := count Q + 1\<rparr>)"
proof -
  from iconPtr_spec[OF assms(1), of n] assms(2) obtain s' where
    s': "IconsetFactory_iconPtr n s = Inr (Some i, s')" "null_ext s s'" by auto
  then have ih: "ih s' = ih s" by (simp add: null_ext_def)
  let ?r = "next_addr (ih s)"
  let ?h2 = "(ih s)\<lparr>icons := (icons (ih s))(?r \<mapsto> q),
                 privs := (privs (ih s))(q \<mapsto> Q\<lparr>count := count Q + 1\<rparr>),
                 next_addr := Suc ?r\<rparr>"
  have c: "Icon_copy_ctor i (ih s) = Inr (?r, ?h2)"
    by (simp add: Icon_copy_ctor_def assms(3) bindE_def Let_def)
  have "IconsetFactory_icon n s = Inr (?r, s'\<lparr>ih := ?h2\<rparr>)"
    by (simp add: IconsetFactory_icon_def s'(1) bindE_def ih c)
  moreover have "icon_priv (ih (s'\<lparr>ih := ?h2\<rparr>)) ?r = Inr (q, Q\<lparr>count := count Q + 1\<rparr>)"
    by (simp add: icon_priv_Inr)
  moreover have "icon_priv (ih (s'\<lparr>ih := ?h2\<rparr>)) i = Inr (q, Q\<lparr>count := count Q + 1\<rparr>)"
    using assms(3) by (simp add: icon_priv_Inr)
  ultimately show ?thesis by blast
qed

lemma example_factory_state_eq:
  "example_factory_state =
     \<lparr>ih = \<lparr>icons = [1 \<mapsto> 0, 4 \<mapsto> 0],
             privs = [0 \<mapsto> empty_Private\<lparr>count := 2\<rparr>],
             next_addr = 5, uninit = (\<lambda>a. 0)\<rparr>,
      isets = [3 \<mapsto> 2],
      sprivs = [2 \<mapsto> SPrivate_init\<lparr>dict := [''a'' \<mapsto> Some 4], icon_list := [4]\<rparr>],
      fac = \<lparr>iconsets = Some [Some 3], emptyPixmap = False\<rparr>\<rparr>"
  by (simp add: example_factory_state_def example_state_eq Iconset_setIcon_def
      Iconset_detach_def iconset_priv_def iconset_d_def spriv_at_def bindE_def SPrivate_init_def
      Icon_copy_ctor_def icon_priv_def icon_d_def priv_at_def Let_def SPrivate_remove_def
      SPrivate_append_def delete_icon_def on_icons_def Icon_dtor_def release_def
      Iconset_addToFactory_def registerIconset_def factory_init_def empty_Private_def
      numeral_2_eq_2)

lemma example_factory_facts:
  "registry_live example_factory_state"
  "first_icon example_factory_state (entries (fac example_factory_state)) ''a'' = Some 4"
  "first_icon example_factory_state (entries (fac example_factory_state)) ''b'' = None"
  "icon_priv (ih example_factory_state) 4 = Inr (0, empty_Private\<lparr>count := 2\<rparr>)"
  by (simp_all add: example_factory_state_eq registry_live_def entries_def lookup_def icon_priv_Inr)

text \<open>
  C1. \<^verbatim>\<open>IconsetFactory::iconPtr(name)\<close> goes through the registered iconsets in
  registration order and returns the pointer stored under the name in the first iconset
  that stores an icon under it, or the null pointer when no registered iconset does; the
  only change to the state is that hashes may have got a null pointer under the name.
  \<^verbatim>\<open>IconsetFactory::icon(name)\<close> returns a new icon that shares the Private of that icon
  (a copy of it), or a new icon with a default-constructed Private when there is none.
  The name of an icon is the name under which the iconset stores it.
\<close>

theorem factory_icon_first_match:
  "registry_live s \<Longrightarrow>
     (\<exists>s'. IconsetFactory_iconPtr n s = Inr (first_icon s (entries (fac s)) n, s') \<and>
           null_ext s s') \<and>
     (first_icon s (entries (fac s)) n = None \<longleftrightarrow>
        (\<forall>a. Some a \<in> set (entries (fac s)) \<longrightarrow> lookup s a n = None)) \<and>
     (\<forall>i. first_icon s (entries (fac s)) n = Some i \<longleftrightarrow>
        (\<exists>j < length (entries (fac s)). \<exists>a.
            entries (fac s) ! j = Some a \<and> lookup s a n = Some i \<and>
            (\<forall>j' < j. \<forall>a'. entries (fac s) ! j' = Some a' \<longrightarrow> lookup s a' n = None))) \<and>
     (first_icon s (entries (fac s)) n = None \<longrightarrow>
        (\<exists>r s'' q. IconsetFactory_icon n s = Inr (r, s'') \<and>
            icon_priv (ih s'') r = Inr (q, empty_Private))) \<and>
     (\<forall>i q Q. first_icon s (entries (fac s)) n = Some i \<and> icon_priv (ih s) i = Inr (q, Q) \<longrightarrow>
        (\<exists>r s''. IconsetFactory_icon n s = Inr (r, s'') \<and>
            icon_priv (ih s'') r = Inr (q, Q\<lparr>count := count Q + 1\<rparr>) \<and>
            icon_priv (ih s'') i = Inr (q, Q\<lparr>count := count Q + 1\<rparr>)))"
  using iconPtr_spec[of s n] first_icon_None[of s "entries (fac s)" n]
    first_icon_Some[of s "entries (fac s)" n] factory_icon_absent[of s n]
    factory_icon_present[of s n]
  by blast

theorem factory_icon_first_match_witness:
  "registry_live example_factory_state \<and>
   (\<exists>s'. IconsetFactory_iconPtr ''a'' example_factory_state = Inr (Some 4, s')) \<and>
   (\<exists>r s''. IconsetFactory_icon ''a'' example_factory_state = Inr (r, s'') \<and>
       icon_priv (ih s'') r = Inr (0, empty_Private\<lparr>count := 3\<rparr>)) \<and>
   (\<exists>s'. IconsetFactory_iconPtr ''b'' example_factory_state = Inr (None, s')) \<and>
   (\<exists>r s'' q. IconsetFactory_icon ''b'' example_factory_state = Inr (r, s'') \<and>
       icon_priv (ih s'') r = Inr (q, empty_Private))"
proof -
  note A = factory_icon_first_match[OF example_factory_facts(1), of "''a''"]
  note B = factory_icon_first_match[OF example_factory_facts(1), of "''b''"]
  from A[THEN conjunct1]
  have 1: "\<exists>s'. IconsetFactory_iconPtr ''a'' example_factory_state = Inr (Some 4, s')"
    unfolding example_factory_facts(2) by blast
  from A[THEN conjunct2, THEN conjunct2, THEN conjunct2, THEN conjunct2, rule_format,
      of 4 0 "empty_Private\<lparr>count := 2\<rparr>"] example_factory_facts(2,4)
  have 2: "\<exists>r s''. IconsetFactory_icon ''a'' example_factory_state = Inr (r, s'') \<and>
       icon_priv (ih s'') r = Inr (0, empty_Private\<lparr>count := 3\<rparr>)"
    by simp blast
  from B[THEN conjunct1]
  have 3: "\<exists>s'. IconsetFactory_iconPtr ''b'' example_factory_state = Inr (None, s')"
    unfolding example_factory_facts(3) by blast
  from B[THEN conjunct2, THEN conjunct2, THEN conjunct2, THEN conjunct1] example_factory_facts(3)
  have 4: "\<exists>r s'' q. IconsetFactory_icon ''b'' example_factory_state = Inr (r, s'') \<and>
       icon_priv (ih s'') r = Inr (q, empty_Private)"
    by simp
  from example_factory_facts(1) 1 2 3 4 show ?thesis by simp
qed

subsection \<open>Reference counting of iconsets\<close>


lemma Iconset_copy_ctor_shares:
  assumes "iconset_priv s from = Inr (d, P)"
  shows "\<exists>i s'. Iconset_copy_ctor from s = Inr (i, s') \<and> isets s' i = Some d \<and>
           sprivs s' d = Some (P\<lparr>scount := scount P + 1\<rparr>) \<and>
           (from \<noteq> i \<longrightarrow> isets s' from = Some d)"
proof -
  from assms have ip: "isets s from = Some d" "sprivs s d = Some P"
    by (simp_all add: iconset_priv_Inr)
  then show ?thesis
    by (simp add: Iconset_copy_ctor_def assms bindE_def new_addr_def Let_def)
qed

lemma Iconset_dtor_deletes_at_zero:
  assumes "iconset_priv s this = Inr (d, P)" "Iconset_dtor this s = Inr s'"
  shows "isets s' this = None"
    and "scount P - 1 = 0 \<longrightarrow> sprivs s' d = None"
    and "scount P - 1 \<noteq> 0 \<longrightarrow> sprivs s' d = Some (P\<lparr>scount := scount P - 1\<rparr>)"
  using assms
  by (auto simp: Iconset_dtor_def srelease_def bindE_Inr iconset_priv_Inr iconset_d_Inr
        spriv_at_Inr split: if_splits dest!: delete_effect)

lemma Iconset_assign_shares:
  assumes "iconset_priv s this = Inr (d, P)" "iconset_priv s from = Inr (d', P')" "d \<noteq> d'"
    "Iconset_assign this from s = Inr s'"
  shows "isets s' this = Some d'" 
    and "sprivs s' d' = Some (P'\<lparr>scount := scount P' + 1\<rparr>)"
    and "scount P - 1 = 0 \<longrightarrow> sprivs s' d = None"
    and "scount P - 1 \<noteq> 0 \<longrightarrow> sprivs s' d = Some (P\<lparr>scount := scount P - 1\<rparr>)"
  using assms
  by (auto simp: Iconset_assign_def srelease_def bindE_Inr iconset_priv_Inr iconset_d_Inr
        spriv_at_Inr split: if_splits dest!: delete_effect)

text \<open>
  C3. Iconsets are reference counted. The claim fails at the assignment of an iconset
  to itself while it is the only one that refers to its Private: \<^verbatim>\<open>d->deref()\<close> drops the
  count to zero, the Private is deleted, and \<^verbatim>\<open>d = from.d; d->ref();\<close> then goes through
  the pointer to the deleted Private. The state below holds one new iconset, at address
  1, with its Private at address 0 and count 1.
\<close>

theorem Iconset_self_assignment_use_after_free:
  "iconset_priv (snd (Iconset_new empty_state)) 1 = Inr (0, SPrivate_init) \<and>
   scount SPrivate_init = 1 \<and>
   Iconset_assign 1 1 (snd (Iconset_new empty_state)) = Inl UseAfterFree"
  by (simp add: Iconset_assign_def Iconset_new_def new_addr_def empty_state_def empty_heap_def
        SPrivate_init_def Let_def iconset_d_def srelease_def spriv_at_def bindE_def
        SPrivate_delete_def SPrivate_clear_def on_icons_def iconset_priv_def)

subsection \<open>Loading an iconset\<close>


lemma same_info_refl [simp]: "same_info P P"
  by (simp add: same_info_def)




lemma foldl_loadMeta_filename:
  "filename (foldl (loadMeta_node F) P cs) = filename P \<and>
   scount (foldl (loadMeta_node F) P cs) = scount P \<and>
   dict (foldl (loadMeta_node F) P cs) = dict P \<and>
   icon_list (foldl (loadMeta_node F) P cs) = icon_list P \<and>
   info (foldl (loadMeta_node F) P cs) = info P"
  by (induction cs rule: rev_induct) (simp_all add: loadMeta_node_def)

lemma loadMeta_filename [simp]: "filename (loadMeta F i P) = filename P"
  by (simp add: loadMeta_def foldl_loadMeta_filename)




subsection \<open>Frame conditions of the operations of an icon\<close>

lemma hstep_refl [simp]: "hstep B h h"
  unfolding hstep_def
proof (intro conjI allI impI ballI)
  fix i q Q assume "i \<in> B \<and> icons h i = Some q \<and> privs h q = Some Q"
  then have "privs h q = Some (Q\<lparr>count := count Q\<rparr>)" by simp
  then show "\<exists>c. privs h q = Some (Q\<lparr>count := c\<rparr>)" ..
qed simp_all






















lemma bindE_Inr_pair:
  "bindE m (\<lambda>(a, b). f a b) = Inr y \<longleftrightarrow> (\<exists>a b. m = Inr (a, b) \<and> f a b = Inr y)"
  by (cases m) (auto simp: bindE_def)

























lemma icon_priv_own:
  "icons h a = Some d \<Longrightarrow> privs h d = Some Q \<Longrightarrow> icon_priv h a = Inr (d, Q)"
  by (simp add: icon_priv_Inr)












subsection \<open>The result of load\<close>






subsection \<open>Loading from a directory\<close>








subsection \<open>Frame conditions of the operations of an iconset\<close>

lemma step_refl [simp]: "step n0 this s s"
  unfolding step_def
proof (intro conjI allI impI)
  fix d P assume "d < n0 \<and> sprivs s d = Some P"
  then have "sprivs s d = Some (P\<lparr>scount := scount P\<rparr>)" by simp
  then show "\<exists>c. sprivs s d = Some (P\<lparr>scount := c\<rparr>)" ..
qed simp_all










































lemma wf_state_fresh:
  assumes "wf_state s" "next_addr (ih s) \<le> i"
  shows "isets s i = None"
proof (cases "isets s i")
  case (Some d)
  with assms(1) have "i < next_addr (ih s)" unfolding wf_state_def by blast
  with assms(2) show ?thesis by simp
qed simp








subsection \<open>Copy-on-write of icons and iconsets\<close>




lemma shared_state_eq:
  "shared_state =
     \<lparr>ih = \<lparr>icons = [1 \<mapsto> 0, 4 \<mapsto> 0],
            privs = [0 \<mapsto> \<lparr>count = 2, name = [], regExp = [], icon_text = [], sound = None,
                      impix = None, anim = None, activatedCount = 0\<rparr>],
            next_addr = 6, uninit = (\<lambda>a. 0)\<rparr>,
      isets = [3 \<mapsto> 2, 5 \<mapsto> 2],
      sprivs = [2 \<mapsto> SPrivate_init\<lparr>scount := 2, dict := [''a'' \<mapsto> Some 4], icon_list := [4]\<rparr>],
      fac = factory_init\<rparr>"
  by (simp add: shared_state_def example_state_eq iconset_eval Iconset_copy_ctor_def new_addr_def
      numeral_2_eq_2 eval_nat_numeral)











lemma setInfo_changes_copy:
  "Iconset_info 5 shared_state = Inr Map.empty \<and>
   (\<exists>s'. Iconset_setInfo 3 [''k'' \<mapsto> ''v''] shared_state = Inr s' \<and>
      Iconset_info 5 s' = Inr [''k'' \<mapsto> ''v''])"
  by (simp add: shared_state_eq Iconset_setInfo_def Iconset_info_def modify_spriv_def
      iconset_priv_def iconset_d_def spriv_at_def bindE_def SPrivate_init_def)




end
